theory Spec2Isabelle
  imports Complex_Main
begin

section \<open>PyMataOSC\_v4.py: numbers, errors and board commands\<close>

text \<open>
  The script runs under Python 2 with \<^verbatim>\<open>from __future__ import division\<close>, so
  \<^verbatim>\<open>/\<close> is true division on every number. In the handlers the numbers that take part
  in arithmetic (velocities, controller values, positions, speeds, the MIDI range) are
  modelled as \<^typ>\<open>real\<close>: there the arithmetic is exact, and what a handler computes is
  read up to the rounding of doubles. \<^verbatim>\<open>map_value\<close> itself is given twice: over the
  real numbers (\<open>map_value\<close>), and in Python's own arithmetic on integers and doubles,
  with its rounding and its \<^verbatim>\<open>OverflowError\<close> (\<open>map_value_py\<close>). Numbers that are
  only compared or passed on (note numbers, controller numbers, pins) are \<^typ>\<open>int\<close>.

  The exceptions the modelled code can raise.
\<close>

datatype error = ZeroDivisionError | ValueError | OverflowError

text \<open>
  The calls the handlers make on the PyMata board object:
  \<^verbatim>\<open>board.analog_write(pin, value)\<close>, \<^verbatim>\<open>board.timerthree_set_frequency(f)\<close> and
  \<^verbatim>\<open>board.timerthree_pwm(pin, duty)\<close>.
\<close>

datatype cmd =
    analog_write int int
  | timerthree_set_frequency int
  | timerthree_pwm int int

text \<open>Python's \<^verbatim>\<open>int(x)\<close> on a number: truncation toward zero.\<close>

definition py_int :: "real \<Rightarrow> int" where
  "py_int x = (if x < 0 then \<lceil>x\<rceil> else \<lfloor>x\<rfloor>)"

subsection \<open>\<^verbatim>\<open>map_value\<close> (lines 59-60)\<close>

text \<open>
  \<^verbatim>\<open>def map_value(x, lower, upper, min, max):
      return min + ((x - lower) / (upper - lower)) * (max - min)\<close>
  True division by zero raises \<^verbatim>\<open>ZeroDivisionError\<close>, for integers and floats alike.
  Over the real numbers, where no operation rounds:
\<close>

definition map_value :: "real \<Rightarrow> real \<Rightarrow> real \<Rightarrow> real \<Rightarrow> real \<Rightarrow> error + real" where
  "map_value x lower upper min' max' =
     (if upper - lower = 0 then Inl ZeroDivisionError
      else Inr (min' + ((x - lower) / (upper - lower)) * (max' - min')))"

subsection \<open>\<^verbatim>\<open>map_value\<close> in Python's own arithmetic\<close>

text \<open>
  Python evaluates line 60 on its own numbers. An \<^verbatim>\<open>int\<close> (or \<^verbatim>\<open>long\<close>) is an
  unbounded integer. A \<^verbatim>\<open>float\<close> is an IEEE 754 double: a finite value, an infinity or
  a NaN (\<^verbatim>\<open>json.load\<close> reads the last two from \<^verbatim>\<open>Infinity\<close> and \<^verbatim>\<open>NaN\<close>, and an
  overflowing float operation gives an infinity). A zero carries no sign here: line 60
  could tell the two zeros apart only by dividing by one, and there Python raises
  \<^verbatim>\<open>ZeroDivisionError\<close> for both.
\<close>

datatype pyfloat = Finite real | PosInf | NegInf | NaN

datatype pynum = PyInt int | PyFloat pyfloat

text \<open>The integer nearest to \<open>x\<close>, a tie going to the even one.\<close>

definition round_even :: "real \<Rightarrow> int" where
  "round_even x =
     (let f = \<lfloor>x\<rfloor>; d = x - of_int f in
      if d < 1 / 2 then f else if 1 / 2 < d then f + 1 else if even f then f else f + 1)"

text \<open>
  A double has 53 mantissa bits, and the spacing of the doubles around \<open>x\<close> is
  \<open>2 ^ e\<close> for the least \<open>e\<close> with \<open>\<bar>x\<bar> < 2 ^ (e + 53)\<close>, but not less than
  \<open>2 ^ - 1074\<close> (the subnormal doubles) and not more than \<open>2 ^ 971\<close> (the largest
  doubles). \<open>exp_search\<close> looks for that \<open>e\<close> from \<open>- 1074\<close> upward.
\<close>

fun exp_search :: "nat \<Rightarrow> int \<Rightarrow> real \<Rightarrow> int" where
  "exp_search 0 e x = e"
| "exp_search (Suc n) e x = (if \<bar>x\<bar> < power_int 2 (e + 53) then e else exp_search n (e + 1) x)"

definition exponent :: "real \<Rightarrow> int" where
  "exponent x = exp_search 2045 (- 1074) x"

text \<open>
  \<open>round_double x\<close> is \<open>x\<close> rounded to the nearest multiple of that spacing, ties to
  even: the double nearest to \<open>x\<close>, or a value of magnitude \<open>2 ^ 1024\<close> or more when
  \<open>x\<close> lies beyond the largest double. \<open>to_double\<close> is the result an IEEE operation
  gives for the exact value \<open>x\<close>: on overflow an infinity.
\<close>

definition round_double :: "real \<Rightarrow> real" where
  "round_double x = of_int (round_even (x / power_int 2 (exponent x))) * power_int 2 (exponent x)"

definition to_double :: "real \<Rightarrow> pyfloat" where
  "to_double x =
     (let y = round_double x in
      if 2 ^ 1024 \<le> y then PosInf else if y \<le> - (2 ^ 1024) then NegInf else Finite y)"

text \<open>
  The IEEE operations on two floats: the exact result rounded, with the usual rules for
  infinities and NaN. Python's \<^verbatim>\<open>+\<close>, \<^verbatim>\<open>-\<close> and \<^verbatim>\<open>*\<close> on floats are these and
  raise nothing. \<open>fdiv\<close> is only applied to a divisor that is not zero.
\<close>

fun fneg :: "pyfloat \<Rightarrow> pyfloat" where
  "fneg (Finite x) = Finite (- x)"
| "fneg PosInf = NegInf"
| "fneg NegInf = PosInf"
| "fneg NaN = NaN"

fun fadd :: "pyfloat \<Rightarrow> pyfloat \<Rightarrow> pyfloat" where
  "fadd (Finite x) (Finite y) = to_double (x + y)"
| "fadd NaN b = NaN"
| "fadd a NaN = NaN"
| "fadd PosInf NegInf = NaN"
| "fadd NegInf PosInf = NaN"
| "fadd PosInf b = PosInf"
| "fadd NegInf b = NegInf"
| "fadd (Finite x) b = b"

definition fsub :: "pyfloat \<Rightarrow> pyfloat \<Rightarrow> pyfloat" where
  "fsub a b = fadd a (fneg b)"

fun fmul :: "pyfloat \<Rightarrow> pyfloat \<Rightarrow> pyfloat" where
  "fmul (Finite x) (Finite y) = to_double (x * y)"
| "fmul NaN b = NaN"
| "fmul a NaN = NaN"
| "fmul (Finite x) PosInf = (if x = 0 then NaN else if 0 < x then PosInf else NegInf)"
| "fmul (Finite x) NegInf = (if x = 0 then NaN else if 0 < x then NegInf else PosInf)"
| "fmul PosInf (Finite y) = (if y = 0 then NaN else if 0 < y then PosInf else NegInf)"
| "fmul NegInf (Finite y) = (if y = 0 then NaN else if 0 < y then NegInf else PosInf)"
| "fmul PosInf PosInf = PosInf"
| "fmul PosInf NegInf = NegInf"
| "fmul NegInf PosInf = NegInf"
| "fmul NegInf NegInf = PosInf"

fun fdiv :: "pyfloat \<Rightarrow> pyfloat \<Rightarrow> pyfloat" where
  "fdiv (Finite x) (Finite y) = to_double (x / y)"
| "fdiv NaN b = NaN"
| "fdiv a NaN = NaN"
| "fdiv (Finite x) b = Finite 0"
| "fdiv PosInf (Finite y) = (if 0 \<le> y then PosInf else NegInf)"
| "fdiv NegInf (Finite y) = (if 0 \<le> y then NegInf else PosInf)"
| "fdiv a b = NaN"

text \<open>
  What a float operation does to an operand that is an integer
  (\<^verbatim>\<open>PyLong_AsDouble\<close>): the nearest double, ties to even, and \<^verbatim>\<open>OverflowError\<close>
  when the integer lies beyond the largest double.
\<close>

definition to_float :: "pynum \<Rightarrow> error + pyfloat" where
  "to_float a =
     (case a of
        PyFloat f \<Rightarrow> Inr f
      | PyInt n \<Rightarrow> (case to_double (of_int n) of Finite y \<Rightarrow> Inr (Finite y) | _ \<Rightarrow> Inl OverflowError))"

text \<open>
  Python's binary operators. On two integers \<^verbatim>\<open>+\<close>, \<^verbatim>\<open>-\<close> and \<^verbatim>\<open>*\<close> are exact;
  with a float on either side both operands are converted, the left one first, and the
  float operation applies. True division of two integers is the quotient rounded once
  to the nearest double (Python 2.7, for integers of any size), with
  \<^verbatim>\<open>OverflowError\<close> when it lies beyond the largest double; with a float on either
  side it is the IEEE division; a zero divisor raises \<^verbatim>\<open>ZeroDivisionError\<close> in both.
\<close>

definition float_op :: "(pyfloat \<Rightarrow> pyfloat \<Rightarrow> pyfloat) \<Rightarrow> pynum \<Rightarrow> pynum \<Rightarrow> error + pynum" where
  "float_op f a b =
     (case to_float a of
        Inl e \<Rightarrow> Inl e
      | Inr x \<Rightarrow> (case to_float b of Inl e \<Rightarrow> Inl e | Inr y \<Rightarrow> Inr (PyFloat (f x y))))"

fun py_sub :: "pynum \<Rightarrow> pynum \<Rightarrow> error + pynum" where
  "py_sub (PyInt m) (PyInt n) = Inr (PyInt (m - n))"
| "py_sub a b = float_op fsub a b"

fun py_add :: "pynum \<Rightarrow> pynum \<Rightarrow> error + pynum" where
  "py_add (PyInt m) (PyInt n) = Inr (PyInt (m + n))"
| "py_add a b = float_op fadd a b"

fun py_mul :: "pynum \<Rightarrow> pynum \<Rightarrow> error + pynum" where
  "py_mul (PyInt m) (PyInt n) = Inr (PyInt (m * n))"
| "py_mul a b = float_op fmul a b"

fun py_truediv :: "pynum \<Rightarrow> pynum \<Rightarrow> error + pynum" where
  "py_truediv (PyInt m) (PyInt n) =
     (if n = 0 then Inl ZeroDivisionError
      else (case to_double (of_int m / of_int n) of
              Finite y \<Rightarrow> Inr (PyFloat (Finite y))
            | _ \<Rightarrow> Inl OverflowError))"
| "py_truediv a b =
     (case to_float a of
        Inl e \<Rightarrow> Inl e
      | Inr x \<Rightarrow>
          (case to_float b of
             Inl e \<Rightarrow> Inl e
           | Inr y \<Rightarrow> if y = Finite 0 then Inl ZeroDivisionError else Inr (PyFloat (fdiv x y))))"

text \<open>
  Line 60, operation by operation in Python's order of evaluation:
  \<^verbatim>\<open>x - lower\<close>, \<^verbatim>\<open>upper - lower\<close>, the division, \<^verbatim>\<open>max - min\<close>, the product, the
  sum. The first exception ends the call.
\<close>

definition map_value_py :: "pynum \<Rightarrow> pynum \<Rightarrow> pynum \<Rightarrow> pynum \<Rightarrow> pynum \<Rightarrow> error + pynum" where
  "map_value_py x lower upper min' max' =
     (case py_sub x lower of
        Inl e \<Rightarrow> Inl e
      | Inr a \<Rightarrow>
          (case py_sub upper lower of
             Inl e \<Rightarrow> Inl e
           | Inr b \<Rightarrow>
               (case py_truediv a b of
                  Inl e \<Rightarrow> Inl e
                | Inr q \<Rightarrow>
                    (case py_sub max' min' of
                       Inl e \<Rightarrow> Inl e
                     | Inr r \<Rightarrow>
                         (case py_mul q r of
                            Inl e \<Rightarrow> Inl e
                          | Inr p \<Rightarrow> py_add min' p)))))"

section \<open>The configuration and the module globals\<close>

text \<open>
  One entry of \<^verbatim>\<open>config["servo"]\<close>. \<open>cc_home\<close> and \<open>cc_max\<close> are
  \<^verbatim>\<open>c["cc"]["home"]\<close> and \<^verbatim>\<open>c["cc"]["max"]\<close>; \<open>pos_home\<close>, \<open>pos_max\<close>,
  \<open>abs_min\<close> and \<open>abs_max\<close> are the four keys of \<^verbatim>\<open>c["pos"]\<close>; \<open>note_num\<close> is
  \<^verbatim>\<open>c["note"]\<close>.
\<close>

record cc_conf =
  cc_home :: int
  cc_max :: int

record pos_conf =
  pos_home :: real
  pos_max :: real
  abs_min :: real
  abs_max :: real

record servo_conf =
  note_num :: int
  pwm_pin :: int
  cc :: cc_conf
  pos :: pos_conf
  reverse_servo_direction :: bool
  reverse_home_direction :: bool
  reverse_max_direction :: bool

text \<open>
  The keys of \<^verbatim>\<open>config["stepper"]\<close> that the handlers read: \<open>cc_speed\<close> is
  \<^verbatim>\<open>["cc"]["speed"]\<close>, \<open>min_speed\<close> and \<open>max_speed\<close> are under \<^verbatim>\<open>["move"]\<close>.
\<close>

record stepper_conf =
  cc_speed :: int
  min_speed :: real
  max_speed :: real

text \<open>
  The module globals the handlers use. \<open>board\<close> is \<open>None\<close> while no board is
  connected (\<^verbatim>\<open>board = None\<close>), and otherwise holds the commands sent to the board so
  far, oldest first. \<open>servo\<close> and \<open>stepper\<close> are \<^verbatim>\<open>config["servo"]\<close> and
  \<^verbatim>\<open>config["stepper"]\<close>.
\<close>

record globals =
  board :: "cmd list option"
  servo :: "servo_conf list"
  stepper :: stepper_conf
  midi_min :: real
  midi_max :: real
  step_pin :: int
  duty_cycle :: int

section \<open>The handlers\<close>

text \<open>
  The three lines that the note handler (95-97) and both branches of the controller
  handler (125-127, 134-136) share:
  \<^verbatim>\<open>if c["reverse_servo_direction"] == True:
      servo_pos = map_value(servo_pos, abs_min, abs_max, abs_max, abs_min)\<close>
\<close>

definition reverse_servo :: "servo_conf \<Rightarrow> real \<Rightarrow> error + real" where
  "reverse_servo c servo_pos =
     (if reverse_servo_direction c
      then map_value servo_pos (abs_min (pos c)) (abs_max (pos c)) (abs_max (pos c)) (abs_min (pos c))
      else Inr servo_pos)"

subsection \<open>\<^verbatim>\<open>note_handler\<close> (lines 78-98)\<close>

text \<open>
  The body of the loop for one servo whose note matched (lines 94-98): the command it
  sends, or the exception that \<^verbatim>\<open>map_value\<close> raises.
\<close>

definition note_servo :: "real \<Rightarrow> real \<Rightarrow> real \<Rightarrow> servo_conf \<Rightarrow> error + cmd" where
  "note_servo velocity mmin mmax c =
     (case map_value velocity mmin mmax (pos_home (pos c)) (pos_max (pos c)) of
        Inl e \<Rightarrow> Inl e
      | Inr servo_pos \<Rightarrow>
          (case reverse_servo c servo_pos of
             Inl e \<Rightarrow> Inl e
           | Inr servo_pos' \<Rightarrow> Inr (analog_write (pwm_pin c) (py_int servo_pos'))))"

text \<open>
  \<^verbatim>\<open>for c in config["servo"]: if note == c["note"]: ...\<close> The loop has no
  \<^verbatim>\<open>break\<close>. The result is the exception that ended the loop, if any, and the
  commands sent to the board up to then.
\<close>

fun note_loop :: "int \<Rightarrow> real \<Rightarrow> real \<Rightarrow> real \<Rightarrow> servo_conf list \<Rightarrow> cmd list
    \<Rightarrow> error option \<times> cmd list" where
  "note_loop note velocity mmin mmax [] sent = (None, sent)"
| "note_loop note velocity mmin mmax (c # cs) sent =
     (if note = note_num c then
        (case note_servo velocity mmin mmax c of
           Inl e \<Rightarrow> (Some e, sent)
         | Inr w \<Rightarrow> note_loop note velocity mmin mmax cs (sent @ [w]))
      else note_loop note velocity mmin mmax cs sent)"

text \<open>
  The handler on the message \<^verbatim>\<open>data = [chan, note, velocity]\<close>: the exception it
  ends with, if any, and the globals it leaves. The \<^verbatim>\<open>print\<close> of the message is
  left out.
\<close>

definition note_handler :: "int \<times> int \<times> real \<Rightarrow> globals \<Rightarrow> error option \<times> globals" where
  "note_handler data g =
     (case data of (chan, note, velocity) \<Rightarrow>
        (case board g of
           None \<Rightarrow> (None, g)
         | Some sent \<Rightarrow>
             (case note_loop note velocity (midi_min g) (midi_max g) (servo g) sent of
                (e, sent') \<Rightarrow> (e, g\<lparr>board := Some sent'\<rparr>))))"

subsection \<open>\<^verbatim>\<open>cc_handler\<close> (lines 104-143)\<close>

text \<open>
  Lines 120-122 and 130-131: the handler's local \<^verbatim>\<open>ccVal\<close> is overwritten when the
  servo's flag is set.
\<close>

definition reverse_input :: "bool \<Rightarrow> real \<Rightarrow> real \<Rightarrow> real \<Rightarrow> error + real" where
  "reverse_input flag ccVal mmin mmax =
     (if flag then map_value ccVal mmin mmax mmax mmin else Inr ccVal)"

text \<open>
  The body of the loop for one servo (lines 119-137). It returns the exception raised,
  if any, and the values of \<^verbatim>\<open>ccVal\<close>, of the servo's entry and of the commands sent
  at that moment: an assignment made before an exception stays made.
\<close>

definition cc_servo :: "int \<Rightarrow> real \<Rightarrow> real \<Rightarrow> real \<Rightarrow> servo_conf \<Rightarrow> cmd list
    \<Rightarrow> error option \<times> real \<times> servo_conf \<times> cmd list" where
  "cc_servo ccNum ccVal mmin mmax c sent =
     (if ccNum = cc_home (cc c) then
        (case reverse_input (reverse_home_direction c) ccVal mmin mmax of
           Inl e \<Rightarrow> (Some e, ccVal, c, sent)
         | Inr ccVal' \<Rightarrow>
             (case map_value ccVal' mmin mmax (abs_min (pos c)) (abs_max (pos c)) of
                Inl e \<Rightarrow> (Some e, ccVal', c, sent)
              | Inr servo_pos \<Rightarrow>
                  (let c' = c\<lparr>pos := (pos c)\<lparr>pos_home := real_of_int (py_int servo_pos)\<rparr>\<rparr> in
                   case reverse_servo c' servo_pos of
                     Inl e \<Rightarrow> (Some e, ccVal', c', sent)
                   | Inr servo_pos' \<Rightarrow>
                       (None, ccVal', c', sent @ [analog_write (pwm_pin c') (py_int servo_pos')]))))
      else if ccNum = cc_max (cc c) then
        (case reverse_input (reverse_max_direction c) ccVal mmin mmax of
           Inl e \<Rightarrow> (Some e, ccVal, c, sent)
         | Inr ccVal' \<Rightarrow>
             (case map_value ccVal' mmin mmax (pos_home (pos c)) (abs_max (pos c)) of
                Inl e \<Rightarrow> (Some e, ccVal', c, sent)
              | Inr servo_pos \<Rightarrow>
                  (let c' = c\<lparr>pos := (pos c)\<lparr>pos_max := real_of_int (py_int servo_pos)\<rparr>\<rparr> in
                   case reverse_servo c' servo_pos of
                     Inl e \<Rightarrow> (Some e, ccVal', c', sent)
                   | Inr servo_pos' \<Rightarrow>
                       (None, ccVal', c', sent @ [analog_write (pwm_pin c') (py_int servo_pos')]))))
      else (None, ccVal, c, sent))"

text \<open>
  \<^verbatim>\<open>for c in config["servo"]: ...\<close> (line 118): \<^verbatim>\<open>ccVal\<close>, the entries and the
  commands sent are threaded from one servo to the next.
\<close>

fun cc_loop :: "int \<Rightarrow> real \<Rightarrow> real \<Rightarrow> real \<Rightarrow> servo_conf list \<Rightarrow> cmd list
    \<Rightarrow> error option \<times> real \<times> servo_conf list \<times> cmd list" where
  "cc_loop ccNum ccVal mmin mmax [] sent = (None, ccVal, [], sent)"
| "cc_loop ccNum ccVal mmin mmax (c # cs) sent =
     (case cc_servo ccNum ccVal mmin mmax c sent of
        (Some e, ccVal', c', sent') \<Rightarrow> (Some e, ccVal', c' # cs, sent')
      | (None, ccVal', c', sent') \<Rightarrow>
          (case cc_loop ccNum ccVal' mmin mmax cs sent' of
             (e, ccVal'', cs', sent'') \<Rightarrow> (e, ccVal'', c' # cs', sent'')))"

text \<open>Lines 139-143: the stepper's speed, from the \<^verbatim>\<open>ccVal\<close> the loop left.\<close>

definition cc_stepper :: "int \<Rightarrow> real \<Rightarrow> globals \<Rightarrow> cmd list \<Rightarrow> error option \<times> cmd list" where
  "cc_stepper ccNum ccVal g sent =
     (if ccNum = cc_speed (stepper g) then
        (case map_value ccVal (midi_min g) (midi_max g) (min_speed (stepper g)) (max_speed (stepper g)) of
           Inl e \<Rightarrow> (Some e, sent)
         | Inr stepper_speed \<Rightarrow>
             (None, sent @ [timerthree_set_frequency (py_int stepper_speed),
                            timerthree_pwm (step_pin g) (duty_cycle g)]))
      else (None, sent))"

text \<open>
  The handler on the message \<^verbatim>\<open>data = [chan, ccNum, ccVal]\<close>: the exception it ends
  with, if any, and the globals it leaves.
\<close>

definition cc_handler :: "int \<times> int \<times> real \<Rightarrow> globals \<Rightarrow> error option \<times> globals" where
  "cc_handler data g =
     (case data of (chan, ccNum, ccVal) \<Rightarrow>
        (case board g of
           None \<Rightarrow> (None, g)
         | Some sent \<Rightarrow>
             (case cc_loop ccNum ccVal (midi_min g) (midi_max g) (servo g) sent of
                (Some e, ccVal', cs', sent') \<Rightarrow> (Some e, g\<lparr>board := Some sent', servo := cs'\<rparr>)
              | (None, ccVal', cs', sent') \<Rightarrow>
                  (case cc_stepper ccNum ccVal' (g\<lparr>servo := cs'\<rparr>) sent' of
                     (e, sent'') \<Rightarrow> (e, g\<lparr>board := Some sent'', servo := cs'\<rparr>)))))"

section \<open>The address selector\<close>

subsection \<open>Python's \<^verbatim>\<open>int\<close> and \<^verbatim>\<open>str\<close> on strings\<close>

text \<open>
  \<^verbatim>\<open>isspace\<close> in the C locale: space, tab, line feed, vertical tab, form feed,
  carriage return.
\<close>

definition is_space :: "char \<Rightarrow> bool" where
  "is_space c = (c \<in> set [CHR '' '', CHR 0x09, CHR 0x0A, CHR 0x0B, CHR 0x0C, CHR 0x0D])"

definition is_digit :: "char \<Rightarrow> bool" where
  "is_digit c = (c \<in> set ''0123456789'')"

definition digit_val :: "char \<Rightarrow> nat" where
  "digit_val c = of_char c - 48"

definition dec_val :: "string \<Rightarrow> nat" where
  "dec_val ds = foldl (\<lambda>n c. 10 * n + digit_val c) 0 ds"

text \<open>
  \<^verbatim>\<open>int(s)\<close> on a Python 2 byte string, base 10: white space, an optional sign,
  white space again (Python 2 skips it, Python 3 does not), at least one decimal digit,
  white space; anything else raises \<^verbatim>\<open>ValueError\<close>.
\<close>

definition py_int_str :: "string \<Rightarrow> error + int" where
  "py_int_str s =
     (let s1 = dropWhile is_space s;
          neg = (s1 \<noteq> [] \<and> hd s1 = CHR ''-'');
          s2 = (if s1 \<noteq> [] \<and> (hd s1 = CHR ''-'' \<or> hd s1 = CHR ''+'') then tl s1 else s1);
          s3 = dropWhile is_space s2;
          ds = takeWhile is_digit s3;
          rest = dropWhile is_space (dropWhile is_digit s3)
      in if ds = [] \<or> rest \<noteq> [] then Inl ValueError
         else Inr (if neg then - int (dec_val ds) else int (dec_val ds)))"

text \<open>\<^verbatim>\<open>str(n)\<close> on an integer: its decimal digits, after \<^verbatim>\<open>-\<close> when negative.\<close>

definition digit_char :: "nat \<Rightarrow> char" where
  "digit_char d = ''0123456789'' ! d"

fun str_nat :: "nat \<Rightarrow> string" where
  "str_nat n =
     (if n < 10 then [digit_char n]
      else str_nat (n div 10) @ [digit_char (n mod 10)])"

declare str_nat.simps [simp del]

definition str_int :: "int \<Rightarrow> string" where
  "str_int i = (if i < 0 then CHR ''-'' # str_nat (nat (- i)) else str_nat (nat i))"

subsection \<open>\<^verbatim>\<open>getIPAddress2\<close> (lines 159-172) and the classification (lines 227-236)\<close>

text \<open>
  \<^verbatim>\<open>endNum = int(address[-3:])\<close>: the last three characters of the string, or all of
  it when it is shorter.
\<close>

definition getIPAddress2 :: "string \<Rightarrow> error + string" where
  "getIPAddress2 address =
     (case py_int_str (drop (length address - 3) address) of
        Inl e \<Rightarrow> Inl e
      | Inr endNum \<Rightarrow>
          Inr (''192.168.1.'' @ str_int (if endNum mod 2 = 0 then endNum + 1 else endNum - 1)))"

text \<open>
  Lines 227-236 of the main program, from the discovered \<^verbatim>\<open>address1\<close> on: the pair
  \<^verbatim>\<open>(addressWLAN, addressLAN)\<close>.
\<close>

definition main_addresses :: "string \<Rightarrow> error + string \<times> string" where
  "main_addresses address1 =
     (case getIPAddress2 address1 of
        Inl e \<Rightarrow> Inl e
      | Inr address2 \<Rightarrow>
          (case py_int_str (drop (length address1 - 3) address1) of
             Inl e \<Rightarrow> Inl e
           | Inr n \<Rightarrow>
               Inr (if n mod 2 = 0 then (address1, address2) else (address2, address1))))"

section \<open>Closed forms and example configurations\<close>


text \<open>
  The servo of the specification's examples (note 60, home 10, max 100, absolute range
  0 to 200), on a given pin, and globals with a connected board that has received
  nothing yet.
\<close>

definition example_servo :: "int \<Rightarrow> servo_conf" where
  "example_servo pin =
     \<lparr>note_num = 60, pwm_pin = pin, cc = \<lparr>cc_home = 20, cc_max = 21\<rparr>,
      pos = \<lparr>pos_home = 10, pos_max = 100, abs_min = 0, abs_max = 200\<rparr>,
      reverse_servo_direction = False, reverse_home_direction = False,
      reverse_max_direction = False\<rparr>"

definition example_globals :: "servo_conf list \<Rightarrow> globals" where
  "example_globals cs =
     \<lparr>board = Some [], servo = cs, stepper = \<lparr>cc_speed = 30, min_speed = 0, max_speed = 1000\<rparr>,
      midi_min = 0, midi_max = 127, step_pin = 5, duty_cycle = 511\<rparr>"






section \<open>Rounding to a double\<close>

lemma exp_search_spec:
  "e0 \<le> exp_search n e0 x \<and> exp_search n e0 x \<le> e0 + int n
   \<and> (exp_search n e0 x < e0 + int n \<longrightarrow> \<bar>x\<bar> < power_int 2 (exp_search n e0 x + 53))
   \<and> (\<forall>k. e0 \<le> k \<and> k < exp_search n e0 x \<longrightarrow> power_int 2 (k + 53) \<le> \<bar>x\<bar>)"
proof (induction n arbitrary: e0)
  case 0
  show ?case by simp
next
  case (Suc n)
  show ?case
  proof (cases "\<bar>x\<bar> < power_int 2 (e0 + 53)")
    case True
    then show ?thesis by simp
  next
    case False
    have ih: "e0 + 1 \<le> exp_search n (e0 + 1) x \<and> exp_search n (e0 + 1) x \<le> e0 + 1 + int n
       \<and> (exp_search n (e0 + 1) x < e0 + 1 + int n \<longrightarrow> \<bar>x\<bar> < power_int 2 (exp_search n (e0 + 1) x + 53))
       \<and> (\<forall>k. e0 + 1 \<le> k \<and> k < exp_search n (e0 + 1) x \<longrightarrow> power_int 2 (k + 53) \<le> \<bar>x\<bar>)"
      by (rule Suc.IH)
    have s: "exp_search (Suc n) e0 x = exp_search n (e0 + 1) x" using False by simp
    have "\<forall>k. e0 \<le> k \<and> k < exp_search n (e0 + 1) x \<longrightarrow> power_int 2 (k + 53) \<le> \<bar>x\<bar>"
    proof (intro allI impI)
      fix k assume k: "e0 \<le> k \<and> k < exp_search n (e0 + 1) x"
      show "power_int 2 (k + 53) \<le> \<bar>x\<bar>"
      proof (cases "k = e0")
        case True
        with False show ?thesis by simp
      next
        case False
        with k have "e0 + 1 \<le> k \<and> k < exp_search n (e0 + 1) x" by simp
        with ih show ?thesis by blast
      qed
    qed
    with ih show ?thesis unfolding s by simp
  qed
qed

lemma exponent_range: "- 1074 \<le> exponent x \<and> exponent x \<le> 971"
  using exp_search_spec [of "- 1074" 2045 x] by (simp add: exponent_def)

lemma exponent_upper: "exponent x < 971 \<Longrightarrow> \<bar>x\<bar> < power_int 2 (exponent x + 53)"
  using exp_search_spec [of "- 1074" 2045 x] by (simp add: exponent_def)

lemma exponent_lower: "- 1074 < exponent x \<Longrightarrow> power_int 2 (exponent x + 52) \<le> \<bar>x\<bar>"
proof -
  assume a: "- 1074 < exponent x"
  have "\<forall>k. - 1074 \<le> k \<and> k < exponent x \<longrightarrow> power_int 2 (k + 53) \<le> \<bar>x\<bar>"
    using exp_search_spec [of "- 1074" 2045 x] by (simp add: exponent_def)
  then have "- 1074 \<le> exponent x - 1 \<and> exponent x - 1 < exponent x
      \<longrightarrow> power_int 2 (exponent x - 1 + 53) \<le> \<bar>x\<bar>" by (rule spec)
  with a have "power_int 2 (exponent x - 1 + 53) \<le> \<bar>x\<bar>" by simp
  moreover have "exponent x - 1 + 53 = exponent x + 52" by simp
  ultimately show ?thesis by (simp only:)
qed

lemma exponent_eq:
  assumes "- 1074 \<le> e" and "e \<le> 971"
    and "- 1074 < e \<longrightarrow> power_int 2 (e + 52) \<le> \<bar>x\<bar>"
    and "e < 971 \<longrightarrow> \<bar>x\<bar> < power_int 2 (e + 53)"
  shows "exponent x = e"
proof (rule ccontr)
  assume ne: "exponent x \<noteq> e"
  have r: "- 1074 \<le> exponent x \<and> exponent x \<le> 971" by (rule exponent_range)
  show False
  proof (cases "exponent x < e")
    case True
    with assms(2) have "exponent x < 971" by simp
    then have 1: "\<bar>x\<bar> < power_int 2 (exponent x + 53)" by (rule exponent_upper)
    have "power_int (2::real) (exponent x + 53) \<le> power_int 2 (e + 52)"
      using True by (intro power_int_increasing) simp_all
    moreover have "power_int 2 (e + 52) \<le> \<bar>x\<bar>" using assms(3) r True by simp
    ultimately show False using 1 by simp
  next
    case False
    with ne have g: "e < exponent x" by simp
    with r have "e < 971" by simp
    with assms(4) have 1: "\<bar>x\<bar> < power_int 2 (e + 53)" by simp
    have "- 1074 < exponent x" using g assms(1) by simp
    then have 2: "power_int 2 (exponent x + 52) \<le> \<bar>x\<bar>" by (rule exponent_lower)
    have "power_int (2::real) (e + 53) \<le> power_int 2 (exponent x + 52)"
      using g by (intro power_int_increasing) simp_all
    with 1 2 show False by simp
  qed
qed

lemma round_even_of_int: "round_even (of_int n) = n"
  by (simp add: round_even_def)

lemma exponent_0: "exponent 0 = - 1074"
  by (rule exponent_eq) simp_all

lemma round_double_0: "round_double 0 = 0"
  by (simp add: round_double_def round_even_def)

lemma round_double_int:
  assumes "\<bar>n\<bar> \<le> 2 ^ 53"
  shows "round_double (of_int n) = of_int n"
proof -
  let ?e = "exponent (of_int n)"
  have r: "- 1074 \<le> ?e \<and> ?e \<le> 971" by (rule exponent_range)
  have le1: "?e \<le> 1"
  proof (rule ccontr)
    assume "\<not> ?e \<le> 1"
    then have g: "2 \<le> ?e" by simp
    then have "- 1074 < ?e" by simp
    then have 2: "power_int 2 (?e + 52) \<le> \<bar>real_of_int n\<bar>" by (rule exponent_lower)
    have "power_int (2::real) 54 \<le> power_int 2 (?e + 52)"
      using g by (intro power_int_increasing) simp_all
    with 2 have "(2::real) ^ 54 \<le> \<bar>real_of_int n\<bar>" by simp
    moreover have "\<bar>real_of_int n\<bar> \<le> 2 ^ 53" using assms by (metis of_int_abs of_int_le_iff of_int_numeral of_int_power)
    ultimately show False by simp
  qed
  show ?thesis
  proof (cases "?e \<le> 0")
    case True
    then have p: "power_int (2::real) ?e = 1 / 2 ^ nat (- ?e)"
      by (cases "?e = 0") (simp_all add: power_int_def power_one_over)
    have "real_of_int n / power_int 2 ?e = of_int (n * 2 ^ nat (- ?e))"
      by (simp add: p field_simps)
    then have "round_even (real_of_int n / power_int 2 ?e) = n * 2 ^ nat (- ?e)"
      by (simp only: round_even_of_int)
    then show ?thesis by (simp add: round_double_def p)
  next
    case False
    with le1 have e1: "?e = 1" by simp
    then have "power_int 2 (?e + 52) \<le> \<bar>real_of_int n\<bar>" by (intro exponent_lower) simp
    with e1 have "(2::real) ^ 53 \<le> \<bar>real_of_int n\<bar>" by simp
    then have "2 ^ 53 \<le> \<bar>n\<bar>" by (metis of_int_abs of_int_le_iff of_int_numeral of_int_power)
    with assms have "\<bar>n\<bar> = 2 ^ 53" by simp
    then have d: "n = 2 ^ 53 \<or> n = - (2 ^ 53)" by (simp add: abs_if split: if_splits)
    have h: "power_int (2::real) ?e = 2" using e1 by simp
    from d show ?thesis
    proof
      assume n: "n = 2 ^ 53"
      have q: "real_of_int n / 2 = of_int (2 ^ 52)" by (simp add: n)
      have re: "round_even (real_of_int n / 2) = 2 ^ 52" unfolding q by (rule round_even_of_int)
      have "round_double (of_int n) = of_int (2 ^ 52) * 2" unfolding round_double_def h re ..
      then show ?thesis by (simp add: n)
    next
      assume n: "n = - (2 ^ 53)"
      have q: "real_of_int n / 2 = of_int (- (2 ^ 52))" by (simp add: n)
      have re: "round_even (real_of_int n / 2) = - (2 ^ 52)" unfolding q by (rule round_even_of_int)
      have "round_double (of_int n) = of_int (- (2 ^ 52)) * 2" unfolding round_double_def h re ..
      then show ?thesis by (simp add: n)
    qed
  qed
qed

lemma to_double_int:
  assumes "\<bar>n\<bar> \<le> 2 ^ 53"
  shows "to_double (of_int n) = Finite (of_int n)"
proof -
  have b: "\<bar>real_of_int n\<bar> \<le> 2 ^ 53"
    using assms by (metis of_int_abs of_int_le_iff of_int_numeral of_int_power)
  have "(2::real) ^ 53 < 2 ^ 1024" by simp
  with b have "\<not> 2 ^ 1024 \<le> real_of_int n" "\<not> real_of_int n \<le> - (2 ^ 1024)" by linarith+
  then show ?thesis by (simp add: to_double_def round_double_int [OF assms])
qed

lemma round_even_bound_real:
  fixes r t :: real
  assumes "r \<le> t" and "t < r + 1" and "0 \<le> r \<or> r \<le> - 1"
  shows "(t - r < 1 / 2 \<longrightarrow> \<bar>r\<bar> \<le> 2 * \<bar>t\<bar>)
       \<and> (1 / 2 \<le> t - r \<longrightarrow> \<bar>r + 1\<bar> \<le> 2 * \<bar>t\<bar>)
       \<and> (t - r = 1 / 2 \<longrightarrow> \<bar>r\<bar> \<le> 2 * \<bar>t\<bar>)"
  using assms by (auto simp: abs_if)

lemma round_even_bound: "\<bar>real_of_int (round_even t)\<bar> \<le> 2 * \<bar>t\<bar>"
proof -
  let ?f = "\<lfloor>t\<rfloor>"
  have lo: "real_of_int ?f \<le> t" and hi: "t < real_of_int ?f + 1" by linarith+
  have "0 \<le> ?f \<or> ?f \<le> - 1" by linarith
  then have sg: "0 \<le> real_of_int ?f \<or> real_of_int ?f \<le> - 1"
    by (metis of_int_le_iff of_int_minus of_int_1 of_int_0)
  note b = round_even_bound_real [OF lo hi sg]
  have m: "round_even t = ?f \<and> (t - real_of_int ?f < 1 / 2 \<or> t - real_of_int ?f = 1 / 2)
      \<or> round_even t = ?f + 1 \<and> 1 / 2 \<le> t - real_of_int ?f"
    by (simp add: round_even_def Let_def)
  then show ?thesis
  proof
    assume "round_even t = ?f \<and> (t - real_of_int ?f < 1 / 2 \<or> t - real_of_int ?f = 1 / 2)"
    with b show ?thesis by auto
  next
    assume h: "round_even t = ?f + 1 \<and> 1 / 2 \<le> t - real_of_int ?f"
    then have "real_of_int (round_even t) = real_of_int ?f + 1" by simp
    with b h show ?thesis by auto
  qed
qed

lemma round_double_bound: "\<bar>round_double x\<bar> \<le> 2 * \<bar>x\<bar>"
proof -
  let ?p = "power_int (2::real) (exponent x)"
  have p: "0 < ?p" by simp
  have "\<bar>real_of_int (round_even (x / ?p))\<bar> \<le> 2 * \<bar>x / ?p\<bar>" by (rule round_even_bound)
  then have "\<bar>real_of_int (round_even (x / ?p))\<bar> * ?p \<le> 2 * \<bar>x / ?p\<bar> * ?p"
    using p by (intro mult_right_mono) simp_all
  moreover have "2 * \<bar>x / ?p\<bar> * ?p = 2 * \<bar>x\<bar>" using p by (simp add: abs_mult)
  moreover have "\<bar>round_double x\<bar> = \<bar>real_of_int (round_even (x / ?p))\<bar> * ?p"
    using p by (simp add: round_double_def abs_mult)
  ultimately show ?thesis by simp
qed

lemma to_double_finite:
  assumes "\<bar>x\<bar> < 2 ^ 1023"
  shows "to_double x = Finite (round_double x)"
proof -
  have "\<bar>round_double x\<bar> \<le> 2 * \<bar>x\<bar>" by (rule round_double_bound)
  with assms have "\<bar>round_double x\<bar> < 2 ^ 1024" by simp
  then have "\<not> 2 ^ 1024 \<le> round_double x" "\<not> round_double x \<le> - (2 ^ 1024)" by linarith+
  then show ?thesis by (simp add: to_double_def)
qed

lemma round_even_error: "\<bar>real_of_int (round_even t) - t\<bar> \<le> 1 / 2"
proof -
  have lo: "real_of_int \<lfloor>t\<rfloor> \<le> t" and hi: "t < real_of_int \<lfloor>t\<rfloor> + 1" by linarith+
  have "round_even t = \<lfloor>t\<rfloor> \<and> t - real_of_int \<lfloor>t\<rfloor> \<le> 1 / 2
      \<or> round_even t = \<lfloor>t\<rfloor> + 1 \<and> 1 / 2 \<le> t - real_of_int \<lfloor>t\<rfloor>"
    by (simp add: round_even_def Let_def)
  then show ?thesis
  proof
    assume h: "round_even t = \<lfloor>t\<rfloor> \<and> t - real_of_int \<lfloor>t\<rfloor> \<le> 1 / 2"
    then have "real_of_int (round_even t) = real_of_int \<lfloor>t\<rfloor>" by simp
    with h lo show ?thesis by linarith
  next
    assume h: "round_even t = \<lfloor>t\<rfloor> + 1 \<and> 1 / 2 \<le> t - real_of_int \<lfloor>t\<rfloor>"
    then have "real_of_int (round_even t) = real_of_int \<lfloor>t\<rfloor> + 1" by simp
    with h hi show ?thesis by linarith
  qed
qed

lemma round_double_error: "\<bar>round_double t - t\<bar> \<le> \<bar>t\<bar> / 2 ^ 53 + 1 / 2 ^ 1075"
proof -
  let ?e = "exponent t"
  let ?p = "power_int (2::real) ?e"
  let ?m = "real_of_int (round_even (t / ?p))"
  have p: "0 < ?p" by simp
  have "round_double t - t = (?m - t / ?p) * ?p" using p by (simp add: round_double_def field_simps)
  then have "\<bar>round_double t - t\<bar> = \<bar>?m - t / ?p\<bar> * ?p" using p by (simp add: abs_mult)
  moreover have "\<bar>?m - t / ?p\<bar> * ?p \<le> (1 / 2) * ?p"
    using round_even_error [of "t / ?p"] p by (intro mult_right_mono) simp_all
  ultimately have h: "\<bar>round_double t - t\<bar> \<le> ?p / 2" by simp
  have r: "- 1074 \<le> ?e \<and> ?e \<le> 971" by (rule exponent_range)
  show ?thesis
  proof (cases "?e = - 1074")
    case True
    then have "?p / 2 = 1 / 2 ^ 1075" by (simp add: power_int_def field_simps)
    with h have "\<bar>round_double t - t\<bar> \<le> 1 / 2 ^ 1075" by simp
    moreover have "0 \<le> \<bar>t\<bar> / 2 ^ 53" by simp
    ultimately show ?thesis by linarith
  next
    case False
    with r have "- 1074 < ?e" by simp
    then have l: "power_int 2 (?e + 52) \<le> \<bar>t\<bar>" by (rule exponent_lower)
    have "power_int (2::real) (?e + 52) = ?p * 2 ^ 52" by (simp add: power_int_add)
    with l have "?p * 2 ^ 52 \<le> \<bar>t\<bar>" by simp
    then have "?p / 2 \<le> \<bar>t\<bar> / 2 ^ 53" by (simp add: field_simps)
    with h have "\<bar>round_double t - t\<bar> \<le> \<bar>t\<bar> / 2 ^ 53" by linarith
    moreover have "(0::real) \<le> 1 / 2 ^ 1075" by simp
    ultimately show ?thesis by linarith
  qed
qed

lemma round_double_error_num:
  "\<bar>round_double t - t\<bar> \<le> \<bar>t\<bar> / 9007199254740992 + 1 / 2 ^ 1075"
  using round_double_error [of t] by simp


section \<open>\<^verbatim>\<open>map_value\<close> on integers\<close>

lemma to_double_0: "to_double 0 = Finite 0"
  using to_double_int [of 0] by simp

lemma to_double_1: "to_double 1 = Finite 1"
  using to_double_int [of 1] by simp

lemma to_float_int: "\<bar>n\<bar> \<le> 2 ^ 53 \<Longrightarrow> to_float (PyInt n) = Inr (Finite (of_int n))"
  by (simp add: to_float_def to_double_int)

lemma map_value_py_lower:
  assumes "a \<noteq> b" and "\<bar>c\<bar> \<le> 2 ^ 53" and "\<bar>d - c\<bar> \<le> 2 ^ 53"
  shows "map_value_py (PyInt a) (PyInt a) (PyInt b) (PyInt c) (PyInt d) = Inr (PyFloat (Finite (of_int c)))"
proof -
  have 1: "py_truediv (PyInt (a - a)) (PyInt (b - a)) = Inr (PyFloat (Finite 0))"
    using assms(1) by (simp add: to_double_0)
  have 2: "py_mul (PyFloat (Finite 0)) (PyInt (d - c)) = Inr (PyFloat (Finite 0))"
    using to_float_int [OF assms(3)] by (simp add: float_op_def to_float_def to_double_0)
  have 3: "py_add (PyInt c) (PyFloat (Finite 0)) = Inr (PyFloat (Finite (of_int c)))"
    using to_float_int [OF assms(2)] by (simp add: float_op_def to_float_def to_double_int [OF assms(2)])
  show ?thesis
    by (simp only: map_value_py_def py_sub.simps(1) sum.case 1 2 3)
qed

lemma map_value_py_upper:
  assumes "a \<noteq> b" and "\<bar>c\<bar> \<le> 2 ^ 53" and "\<bar>d\<bar> \<le> 2 ^ 53" and "\<bar>d - c\<bar> \<le> 2 ^ 53"
  shows "map_value_py (PyInt b) (PyInt a) (PyInt b) (PyInt c) (PyInt d) = Inr (PyFloat (Finite (of_int d)))"
proof -
  have 1: "py_truediv (PyInt (b - a)) (PyInt (b - a)) = Inr (PyFloat (Finite 1))"
    using assms(1) by (simp add: to_double_1)
  have 2: "py_mul (PyFloat (Finite 1)) (PyInt (d - c)) = Inr (PyFloat (Finite (of_int (d - c))))"
    using to_float_int [OF assms(4)] to_double_int [OF assms(4)]
    by (simp add: float_op_def to_float_def)
  have "real_of_int c + real_of_int (d - c) = real_of_int d" by simp
  then have 3: "py_add (PyInt c) (PyFloat (Finite (of_int (d - c)))) = Inr (PyFloat (Finite (of_int d)))"
    using to_float_int [OF assms(2)] to_double_int [OF assms(3)]
    by (simp add: float_op_def to_float_def)
  show ?thesis
    by (simp only: map_value_py_def py_sub.simps(1) sum.case 1 2 3)
qed

lemma map_value_py_back_lower:
  assumes "c \<noteq> d" and "\<bar>c\<bar> \<le> 2 ^ 53" and "\<bar>d - c\<bar> \<le> 2 ^ 53"
    and "\<bar>a\<bar> \<le> 2 ^ 53" and "\<bar>b - a\<bar> \<le> 2 ^ 53"
  shows "map_value_py (PyFloat (Finite (of_int c))) (PyInt c) (PyInt d) (PyInt a) (PyInt b)
           = Inr (PyFloat (Finite (of_int a)))"
proof -
  have 0: "py_sub (PyFloat (Finite (of_int c))) (PyInt c) = Inr (PyFloat (Finite 0))"
    using to_float_int [OF assms(2)] by (simp add: float_op_def to_float_def fsub_def to_double_0)
  have nz: "real_of_int (d - c) \<noteq> 0" using assms(1) by simp
  have 1: "py_truediv (PyFloat (Finite 0)) (PyInt (d - c)) = Inr (PyFloat (Finite 0))"
    using to_float_int [OF assms(3)] nz by (simp add: to_float_def to_double_0)
  have 2: "py_mul (PyFloat (Finite 0)) (PyInt (b - a)) = Inr (PyFloat (Finite 0))"
    using to_float_int [OF assms(5)] by (simp add: float_op_def to_float_def to_double_0)
  have 3: "py_add (PyInt a) (PyFloat (Finite 0)) = Inr (PyFloat (Finite (of_int a)))"
    using to_float_int [OF assms(4)] by (simp add: float_op_def to_float_def to_double_int [OF assms(4)])
  show ?thesis
    by (simp only: map_value_py_def py_sub.simps(1) sum.case 0 1 2 3)
qed

lemma map_value_py_back_upper:
  assumes "c \<noteq> d" and "\<bar>c\<bar> \<le> 2 ^ 53" and "\<bar>d - c\<bar> \<le> 2 ^ 53"
    and "\<bar>a\<bar> \<le> 2 ^ 53" and "\<bar>b\<bar> \<le> 2 ^ 53" and "\<bar>b - a\<bar> \<le> 2 ^ 53"
  shows "map_value_py (PyFloat (Finite (of_int d))) (PyInt c) (PyInt d) (PyInt a) (PyInt b)
           = Inr (PyFloat (Finite (of_int b)))"
proof -
  have "real_of_int d + - real_of_int c = real_of_int (d - c)" by simp
  then have 0: "py_sub (PyFloat (Finite (of_int d))) (PyInt c) = Inr (PyFloat (Finite (of_int (d - c))))"
    using to_float_int [OF assms(2)] to_double_int [OF assms(3)]
    by (simp add: float_op_def to_float_def fsub_def)
  have nz: "real_of_int (d - c) \<noteq> 0" using assms(1) by simp
  then have "real_of_int (d - c) / real_of_int (d - c) = 1" by simp
  then have 1: "py_truediv (PyFloat (Finite (of_int (d - c)))) (PyInt (d - c)) = Inr (PyFloat (Finite 1))"
    using to_float_int [OF assms(3)] nz by (simp add: to_float_def to_double_1)
  have 2: "py_mul (PyFloat (Finite 1)) (PyInt (b - a)) = Inr (PyFloat (Finite (of_int (b - a))))"
    using to_float_int [OF assms(6)] to_double_int [OF assms(6)]
    by (simp add: float_op_def to_float_def)
  have "real_of_int a + real_of_int (b - a) = real_of_int b" by simp
  then have 3: "py_add (PyInt a) (PyFloat (Finite (of_int (b - a)))) = Inr (PyFloat (Finite (of_int b)))"
    using to_float_int [OF assms(4)] to_double_int [OF assms(5)]
    by (simp add: float_op_def to_float_def)
  show ?thesis
    by (simp only: map_value_py_def py_sub.simps(1) sum.case 0 1 2 3)
qed


lemma abs_real_of_int_le: "\<bar>n\<bar> \<le> 2 ^ 53 \<Longrightarrow> \<bar>real_of_int n\<bar> \<le> 2 ^ 53"
  by (metis of_int_abs of_int_le_iff of_int_numeral of_int_power)

lemma abs_quotient_le:
  assumes "(m::int) \<noteq> 0"
  shows "\<bar>y / real_of_int m\<bar> \<le> \<bar>y\<bar>"
proof -
  from assms have "1 \<le> \<bar>m\<bar>" by simp
  then have "1 \<le> \<bar>real_of_int m\<bar>" by (metis of_int_abs of_int_le_iff of_int_1)
  then have "\<bar>y\<bar> / \<bar>real_of_int m\<bar> \<le> \<bar>y\<bar> / 1"
    by (intro divide_left_mono) simp_all
  then show ?thesis by simp
qed

lemma bound_step:
  fixes y z B :: real
  assumes "\<bar>y\<bar> \<le> 2 * \<bar>z\<bar>" and "\<bar>z\<bar> \<le> B"
  shows "\<bar>y\<bar> \<le> 2 * B"
  using assms by linarith

lemma abs_add_bound:
  fixes u w :: real
  assumes "\<bar>u\<bar> \<le> A" and "\<bar>w\<bar> \<le> B"
  shows "\<bar>u + w\<bar> \<le> A + B"
  using assms by linarith

lemma to_float_float: "to_float (PyFloat f) = Inr f"
  by (simp add: to_float_def)

lemma map_value_py_rounded:
  assumes "a \<noteq> b" and "\<bar>x\<bar> \<le> 2 ^ 53" and "\<bar>a\<bar> \<le> 2 ^ 53" and "\<bar>c\<bar> \<le> 2 ^ 53" and "\<bar>d\<bar> \<le> 2 ^ 53"
  shows "map_value_py (PyInt x) (PyInt a) (PyInt b) (PyInt c) (PyInt d) =
           Inr (PyFloat (Finite (round_double (real_of_int c
             + round_double (round_double (real_of_int (x - a) / real_of_int (b - a))
                             * round_double (real_of_int (d - c)))))))"
proof -
  let ?q = "real_of_int (x - a) / real_of_int (b - a)"
  let ?rq = "round_double ?q"
  let ?rr = "round_double (real_of_int (d - c))"
  let ?rp = "round_double (?rq * ?rr)"
  note bx = abs_real_of_int_le [OF assms(2)] and ba = abs_real_of_int_le [OF assms(3)]
    and bc = abs_real_of_int_le [OF assms(4)] and bd = abs_real_of_int_le [OF assms(5)]
  have nz: "b - a \<noteq> 0" using assms(1) by simp
  have xa: "\<bar>real_of_int (x - a)\<bar> \<le> 2 ^ 54" using bx ba by simp
  have dc: "\<bar>real_of_int (d - c)\<bar> \<le> 2 ^ 54" using bd bc by simp
  have q: "\<bar>?q\<bar> \<le> 2 ^ 54" using abs_quotient_le [OF nz, of "real_of_int (x - a)"] xa by linarith
  have rq: "\<bar>?rq\<bar> \<le> 2 ^ 55" using bound_step [OF round_double_bound q] by simp
  have rr: "\<bar>?rr\<bar> \<le> 2 ^ 55" using bound_step [OF round_double_bound dc] by simp
  have "\<bar>?rq\<bar> * \<bar>?rr\<bar> \<le> 2 ^ 55 * 2 ^ 55" using rq rr by (intro mult_mono) simp_all
  then have pr: "\<bar>?rq * ?rr\<bar> \<le> 2 ^ 110" by (simp add: abs_mult)
  have rp: "\<bar>?rp\<bar> \<le> 2 ^ 111" using bound_step [OF round_double_bound pr] by simp
  have sm: "\<bar>real_of_int c + ?rp\<bar> \<le> 2 ^ 53 + 2 ^ 111" by (rule abs_add_bound [OF bc rp])
  have 1: "py_truediv (PyInt (x - a)) (PyInt (b - a)) = Inr (PyFloat (Finite ?rq))"
  proof -
    have "\<bar>?q\<bar> < 2 ^ 1023" by (rule le_less_trans [OF q]) simp
    from to_double_finite [OF this] nz show ?thesis by simp
  qed
  have r: "to_float (PyInt (d - c)) = Inr (Finite ?rr)"
  proof -
    have "\<bar>real_of_int (d - c)\<bar> < 2 ^ 1023" by (rule le_less_trans [OF dc]) simp
    from to_double_finite [OF this] show ?thesis by (simp add: to_float_def)
  qed
  have 2: "py_mul (PyFloat (Finite ?rq)) (PyInt (d - c)) = Inr (PyFloat (Finite ?rp))"
  proof -
    have "\<bar>?rq * ?rr\<bar> < 2 ^ 1023" by (rule le_less_trans [OF pr]) simp
    from to_double_finite [OF this] r show ?thesis by (simp add: float_op_def to_float_def)
  qed
  have 3: "py_add (PyInt c) (PyFloat (Finite ?rp)) = Inr (PyFloat (Finite (round_double (real_of_int c + ?rp))))"
  proof -
    have "\<bar>real_of_int c + ?rp\<bar> < 2 ^ 1023" by (rule le_less_trans [OF sm]) simp
    from to_double_finite [OF this] to_float_int [OF assms(4)] show ?thesis
      by (simp add: float_op_def to_float_def)
  qed
  show ?thesis
    by (simp only: map_value_py_def py_sub.simps(1) sum.case 1 2 3)
qed


section \<open>The rounding error of \<^verbatim>\<open>map_value\<close>\<close>

lemma tri: fixes u v w :: real shows "\<bar>u - w\<bar> \<le> \<bar>u - v\<bar> + \<bar>v - w\<bar>"
  by linarith

lemma tri_abs: fixes u v :: real shows "\<bar>u\<bar> \<le> \<bar>v\<bar> + \<bar>u - v\<bar>"
  by linarith

lemma lin_a1:
  fixes E X HR :: real
  assumes "E \<le> X / 9007199254740992 + HR" and "X1 \<le> X + E"
  shows "X1 \<le> X + X / 9007199254740992 + HR"
  using assms by linarith

lemma lin_a2:
  fixes P E2 E1 X1 X HR h :: real
  assumes "P \<le> E2 + E1" and "E2 \<le> X1 / 9007199254740992 + h"
    and "E1 \<le> X / 9007199254740992 + HR" and "X1 \<le> X + X / 9007199254740992 + HR"
    and "0 \<le> HR" and "0 \<le> X"
  shows "P \<le> 3 * X / 9007199254740992 + 2 * HR + h"
  using assms by linarith

lemma lin_a3:
  fixes Z C P X HR h :: real
  assumes "Z \<le> C + P1" and "P1 \<le> X + P" and "P \<le> 3 * X / 9007199254740992 + 2 * HR + h"
    and "0 \<le> HR" and "0 \<le> X"
  shows "Z \<le> C + 2 * X + 2 * HR + h"
  using assms by linarith

lemma lin_a4:
  fixes T Y P Z C X HR h :: real
  assumes "T \<le> Y + P" and "Y \<le> Z / 9007199254740992 + h"
    and "Z \<le> C + 2 * X + 2 * HR + h" and "P \<le> 3 * X / 9007199254740992 + 2 * HR + h"
    and "0 \<le> HR" and "0 \<le> X" and "0 \<le> h" and "0 \<le> C"
  shows "T \<le> (C + 5 * X) / 9007199254740992 + 3 * HR + 3 * h"
  using assms unfolding add_divide_distrib by linarith

lemma forward_error:
  fixes q r c q1 p1 y h :: real
  assumes h0: "0 \<le> h"
    and f1: "\<bar>q1 - q\<bar> \<le> \<bar>q\<bar> / 9007199254740992 + h"
    and f2: "\<bar>p1 - q1 * r\<bar> \<le> \<bar>q1 * r\<bar> / 9007199254740992 + h"
    and f3: "\<bar>y - (c + p1)\<bar> \<le> \<bar>c + p1\<bar> / 9007199254740992 + h"
  shows "\<bar>y - (c + q * r)\<bar> \<le> (\<bar>c\<bar> + 5 * \<bar>q * r\<bar>) / 9007199254740992 + 3 * (h * \<bar>r\<bar>) + 3 * h"
proof -
  have hr: "0 \<le> h * \<bar>r\<bar>" using h0 by simp
  have x0: "0 \<le> \<bar>q * r\<bar>" and c0: "0 \<le> \<bar>c\<bar>" by simp_all
  have e1: "\<bar>q1 * r - q * r\<bar> \<le> \<bar>q * r\<bar> / 9007199254740992 + h * \<bar>r\<bar>"
  proof -
    have "\<bar>q1 * r - q * r\<bar> = \<bar>q1 - q\<bar> * \<bar>r\<bar>"
      by (simp add: abs_mult [symmetric] left_diff_distrib)
    also have "\<dots> \<le> (\<bar>q\<bar> / 9007199254740992 + h) * \<bar>r\<bar>"
      using f1 by (intro mult_right_mono) simp_all
    also have "\<dots> = \<bar>q * r\<bar> / 9007199254740992 + h * \<bar>r\<bar>"
      by (simp add: abs_mult algebra_simps)
    finally show ?thesis .
  qed
  have a1: "\<bar>q1 * r\<bar> \<le> \<bar>q * r\<bar> + \<bar>q * r\<bar> / 9007199254740992 + h * \<bar>r\<bar>"
    by (rule lin_a1 [OF e1 tri_abs])
  have a2: "\<bar>p1 - q * r\<bar> \<le> 3 * \<bar>q * r\<bar> / 9007199254740992 + 2 * (h * \<bar>r\<bar>) + h"
    by (rule lin_a2 [OF tri f2 e1 a1 hr x0])
  have t1: "\<bar>c + p1\<bar> \<le> \<bar>c\<bar> + \<bar>p1\<bar>" by linarith
  have a3: "\<bar>c + p1\<bar> \<le> \<bar>c\<bar> + 2 * \<bar>q * r\<bar> + 2 * (h * \<bar>r\<bar>) + h"
    by (rule lin_a3 [OF t1 tri_abs a2 hr x0])
  have t2: "\<bar>y - (c + q * r)\<bar> \<le> \<bar>y - (c + p1)\<bar> + \<bar>p1 - q * r\<bar>" by linarith
  show ?thesis
    by (rule lin_a4 [OF t2 f3 a3 a2 hr x0 h0 c0])
qed

lemma lin_b1:
  fixes G E4 F Y X C HR h :: real
  assumes "G \<le> E4 + F" and "E4 \<le> Y / 9007199254740992 + h" and "Y \<le> X + F"
    and "F \<le> (C + 5 * X) / 9007199254740992 + 3 * HR + 3 * h"
    and "0 \<le> HR" and "0 \<le> X" and "0 \<le> h" and "0 \<le> C"
  shows "G \<le> (2 * C + 7 * X) / 9007199254740992 + 4 * HR + 5 * h"
  using assms unfolding add_divide_distrib by linarith

lemma lin_b2:
  fixes H E5 D T Q CR h :: real
  assumes "H \<le> E5 + D" and "E5 \<le> T / 9007199254740992 + h" and "T \<le> Q + D"
    and "D \<le> (2 * CR + 7 * Q) / 9007199254740992 + 9 * h"
    and "0 \<le> CR" and "0 \<le> Q" and "0 \<le> h"
  shows "H \<le> (3 * CR + 9 * Q) / 9007199254740992 + 11 * h"
  using assms unfolding add_divide_distrib by linarith

lemma lin_b3:
  fixes J E6 E T QS SCR HS h :: real
  assumes "J \<le> E6 + E" and "E6 \<le> T / 9007199254740992 + h" and "T \<le> QS + E"
    and "E \<le> (3 * SCR + 9 * QS) / 9007199254740992 + 11 * HS"
    and "0 \<le> SCR" and "0 \<le> QS" and "0 \<le> HS" and "0 \<le> h"
  shows "J \<le> (4 * SCR + 11 * QS) / 9007199254740992 + 12 * HS + h"
  using assms unfolding add_divide_distrib by linarith

lemma lin_b4:
  fixes K E7 J W A QS SCR HS h :: real
  assumes "K \<le> E7 + J" and "E7 \<le> W / 9007199254740992 + h" and "W \<le> A + QS + J"
    and "J \<le> (4 * SCR + 11 * QS) / 9007199254740992 + 12 * HS + h"
    and "0 \<le> SCR" and "0 \<le> QS" and "0 \<le> HS" and "0 \<le> h" and "0 \<le> A"
  shows "K \<le> (A + 13 * QS + 5 * SCR) / 9007199254740992 + 13 * HS + 3 * h"
  using assms unfolding add_divide_distrib by linarith

lemma backward_error:
  fixes q r s c a y s1 t1 w x' h :: real
  assumes h0: "0 \<le> h" and r1: "1 \<le> \<bar>r\<bar>"
    and f0: "\<bar>y - (c + q * r)\<bar> \<le> (\<bar>c\<bar> + 5 * \<bar>q * r\<bar>) / 9007199254740992 + 3 * (h * \<bar>r\<bar>) + 3 * h"
    and f4: "\<bar>s1 - (y + - c)\<bar> \<le> \<bar>y + - c\<bar> / 9007199254740992 + h"
    and f5: "\<bar>t1 - s1 / r\<bar> \<le> \<bar>s1 / r\<bar> / 9007199254740992 + h"
    and f6: "\<bar>w - t1 * s\<bar> \<le> \<bar>t1 * s\<bar> / 9007199254740992 + h"
    and f7: "\<bar>x' - (a + w)\<bar> \<le> \<bar>a + w\<bar> / 9007199254740992 + h"
  shows "\<bar>x' - (a + q * s)\<bar>
           \<le> (\<bar>a\<bar> + 13 * \<bar>q * s\<bar> + 5 * (\<bar>s\<bar> * \<bar>c\<bar> / \<bar>r\<bar>)) / 9007199254740992
              + 13 * (h * \<bar>s\<bar>) + 3 * h"
proof -
  have rp: "0 < \<bar>r\<bar>" using r1 by linarith
  have rn: "r \<noteq> 0" using rp by simp
  have hr: "0 \<le> h * \<bar>r\<bar>" using h0 by simp
  have hs: "0 \<le> h * \<bar>s\<bar>" using h0 by simp
  have x0: "0 \<le> \<bar>q * r\<bar>" and c0: "0 \<le> \<bar>c\<bar>" and q0: "0 \<le> \<bar>q\<bar>" and a0: "0 \<le> \<bar>a\<bar>"
    and qs0: "0 \<le> \<bar>q * s\<bar>" by simp_all
  have cr: "0 \<le> \<bar>c\<bar> / \<bar>r\<bar>" by simp
  have sc: "0 \<le> \<bar>s\<bar> * \<bar>c\<bar> / \<bar>r\<bar>" by simp
  have g1: "\<bar>s1 - q * r\<bar> \<le> \<bar>s1 - (y + - c)\<bar> + \<bar>y - (c + q * r)\<bar>" by linarith
  have g2: "\<bar>y + - c\<bar> \<le> \<bar>q * r\<bar> + \<bar>y - (c + q * r)\<bar>" by linarith
  have g: "\<bar>s1 - q * r\<bar> \<le> (2 * \<bar>c\<bar> + 7 * \<bar>q * r\<bar>) / 9007199254740992 + 4 * (h * \<bar>r\<bar>) + 5 * h"
    by (rule lin_b1 [OF g1 f4 g2 f0 hr x0 h0 c0])
  have d: "\<bar>s1 / r - q\<bar> \<le> (2 * (\<bar>c\<bar> / \<bar>r\<bar>) + 7 * \<bar>q\<bar>) / 9007199254740992 + 9 * h"
  proof -
    have "s1 / r - q = (s1 - q * r) / r" using rn by (simp add: field_simps)
    then have "\<bar>s1 / r - q\<bar> = \<bar>s1 - q * r\<bar> / \<bar>r\<bar>" by simp
    also have "\<dots> \<le> ((2 * \<bar>c\<bar> + 7 * \<bar>q * r\<bar>) / 9007199254740992 + 4 * (h * \<bar>r\<bar>) + 5 * h) / \<bar>r\<bar>"
      using g rp by (intro divide_right_mono) simp_all
    also have "\<dots> = (2 * (\<bar>c\<bar> / \<bar>r\<bar>) + 7 * \<bar>q\<bar>) / 9007199254740992 + 4 * h + 5 * (h / \<bar>r\<bar>)"
      using rp by (simp add: abs_mult field_simps)
    also have "\<dots> \<le> (2 * (\<bar>c\<bar> / \<bar>r\<bar>) + 7 * \<bar>q\<bar>) / 9007199254740992 + 4 * h + 5 * h"
    proof -
      have "h / \<bar>r\<bar> \<le> h / 1" using r1 h0 by (intro divide_left_mono) simp_all
      then show ?thesis by simp
    qed
    finally show ?thesis by simp
  qed
  have hh: "\<bar>t1 - q\<bar> \<le> (3 * (\<bar>c\<bar> / \<bar>r\<bar>) + 9 * \<bar>q\<bar>) / 9007199254740992 + 11 * h"
    by (rule lin_b2 [OF tri f5 tri_abs d cr q0 h0])
  have e: "\<bar>t1 * s - q * s\<bar> \<le> (3 * (\<bar>s\<bar> * \<bar>c\<bar> / \<bar>r\<bar>) + 9 * \<bar>q * s\<bar>) / 9007199254740992 + 11 * (h * \<bar>s\<bar>)"
  proof -
    have "\<bar>t1 * s - q * s\<bar> = \<bar>t1 - q\<bar> * \<bar>s\<bar>"
      by (simp add: abs_mult [symmetric] left_diff_distrib)
    also have "\<dots> \<le> ((3 * (\<bar>c\<bar> / \<bar>r\<bar>) + 9 * \<bar>q\<bar>) / 9007199254740992 + 11 * h) * \<bar>s\<bar>"
      using hh by (intro mult_right_mono) simp_all
    also have "\<dots> = (3 * (\<bar>s\<bar> * \<bar>c\<bar> / \<bar>r\<bar>) + 9 * \<bar>q * s\<bar>) / 9007199254740992 + 11 * (h * \<bar>s\<bar>)"
      by (simp add: abs_mult algebra_simps)
    finally show ?thesis .
  qed
  have j: "\<bar>w - q * s\<bar> \<le> (4 * (\<bar>s\<bar> * \<bar>c\<bar> / \<bar>r\<bar>) + 11 * \<bar>q * s\<bar>) / 9007199254740992 + 12 * (h * \<bar>s\<bar>) + h"
    by (rule lin_b3 [OF tri f6 tri_abs e sc qs0 hs h0])
  have k1: "\<bar>x' - (a + q * s)\<bar> \<le> \<bar>x' - (a + w)\<bar> + \<bar>w - q * s\<bar>" by linarith
  have k2: "\<bar>a + w\<bar> \<le> \<bar>a\<bar> + \<bar>q * s\<bar> + \<bar>w - q * s\<bar>" by linarith
  show ?thesis
    by (rule lin_b4 [OF k1 f7 k2 j sc qs0 hs h0 a0])
qed

lemma map_value_py_back_rounded:
  assumes "c \<noteq> d" and "\<bar>c\<bar> \<le> 2 ^ 53" and "\<bar>d - c\<bar> \<le> 2 ^ 53"
    and "\<bar>a\<bar> \<le> 2 ^ 53" and "\<bar>b - a\<bar> \<le> 2 ^ 53" and "\<bar>y\<bar> \<le> 2 ^ 113"
  shows "map_value_py (PyFloat (Finite y)) (PyInt c) (PyInt d) (PyInt a) (PyInt b) =
           Inr (PyFloat (Finite (round_double (real_of_int a
             + round_double (round_double (round_double (y + - real_of_int c) / real_of_int (d - c))
                             * real_of_int (b - a))))))"
proof -
  let ?s1 = "round_double (y + - real_of_int c)"
  let ?t1 = "round_double (?s1 / real_of_int (d - c))"
  let ?w = "round_double (?t1 * real_of_int (b - a))"
  note bc = abs_real_of_int_le [OF assms(2)] and br = abs_real_of_int_le [OF assms(3)]
    and ba = abs_real_of_int_le [OF assms(4)] and bs = abs_real_of_int_le [OF assms(5)]
  have nz: "d - c \<noteq> 0" using assms(1) by simp
  have nzr: "real_of_int (d - c) \<noteq> 0" using nz by simp
  have bmc: "\<bar>- real_of_int c\<bar> \<le> 2 ^ 53" using bc by simp
  have yc: "\<bar>y + - real_of_int c\<bar> \<le> 2 ^ 113 + 2 ^ 53" by (rule abs_add_bound [OF assms(6) bmc])
  have s1: "\<bar>?s1\<bar> \<le> 2 ^ 115" using bound_step [OF round_double_bound yc] by simp
  have dv: "\<bar>?s1 / real_of_int (d - c)\<bar> \<le> 2 ^ 115"
    by (rule order_trans [OF abs_quotient_le [OF nz] s1])
  have t1: "\<bar>?t1\<bar> \<le> 2 ^ 116" using bound_step [OF round_double_bound dv] by simp
  have "\<bar>?t1\<bar> * \<bar>real_of_int (b - a)\<bar> \<le> 2 ^ 116 * 2 ^ 53" using t1 bs by (intro mult_mono) simp_all
  then have ts: "\<bar>?t1 * real_of_int (b - a)\<bar> \<le> 2 ^ 169" by (simp add: abs_mult)
  have w: "\<bar>?w\<bar> \<le> 2 ^ 170" using bound_step [OF round_double_bound ts] by simp
  have aw: "\<bar>real_of_int a + ?w\<bar> \<le> 2 ^ 53 + 2 ^ 170" by (rule abs_add_bound [OF ba w])
  have 0: "py_sub (PyFloat (Finite y)) (PyInt c) = Inr (PyFloat (Finite ?s1))"
  proof -
    have "\<bar>y + - real_of_int c\<bar> < 2 ^ 1023" by (rule le_less_trans [OF yc]) simp
    from to_double_finite [OF this] to_float_int [OF assms(2)] show ?thesis
      by (simp only: py_sub.simps float_op_def to_float_float sum.case fsub_def fneg.simps fadd.simps)
  qed
  have 1: "py_truediv (PyFloat (Finite ?s1)) (PyInt (d - c)) = Inr (PyFloat (Finite ?t1))"
  proof -
    have "\<bar>?s1 / real_of_int (d - c)\<bar> < 2 ^ 1023" by (rule le_less_trans [OF dv]) simp
    from to_double_finite [OF this] to_float_int [OF assms(3)] nzr show ?thesis
      by (simp add: to_float_float)
  qed
  have 2: "py_mul (PyFloat (Finite ?t1)) (PyInt (b - a)) = Inr (PyFloat (Finite ?w))"
  proof -
    have "\<bar>?t1 * real_of_int (b - a)\<bar> < 2 ^ 1023" by (rule le_less_trans [OF ts]) simp
    from to_double_finite [OF this] to_float_int [OF assms(5)] show ?thesis
      by (simp only: py_mul.simps float_op_def to_float_float sum.case fmul.simps)
  qed
  have 3: "py_add (PyInt a) (PyFloat (Finite ?w)) = Inr (PyFloat (Finite (round_double (real_of_int a + ?w))))"
  proof -
    have "\<bar>real_of_int a + ?w\<bar> < 2 ^ 1023" by (rule le_less_trans [OF aw]) simp
    from to_double_finite [OF this] to_float_int [OF assms(4)] show ?thesis
      by (simp only: py_add.simps float_op_def to_float_float sum.case fadd.simps)
  qed
  show ?thesis
    by (simp only: map_value_py_def 0 py_sub.simps(1) sum.case 1 2 3)
qed


lemma map_value_py_formula_error:
  assumes "a \<noteq> b" and "\<bar>x\<bar> \<le> 2 ^ 53" and "\<bar>a\<bar> \<le> 2 ^ 53" and "\<bar>c\<bar> \<le> 2 ^ 53" and "\<bar>d\<bar> \<le> 2 ^ 53"
    and "\<bar>d - c\<bar> \<le> 2 ^ 53"
  shows "\<exists>y. map_value_py (PyInt x) (PyInt a) (PyInt b) (PyInt c) (PyInt d) = Inr (PyFloat (Finite y))
           \<and> \<bar>y - (real_of_int c + real_of_int (x - a) / real_of_int (b - a) * real_of_int (d - c))\<bar>
               \<le> (\<bar>real_of_int c\<bar>
                   + 5 * \<bar>real_of_int (x - a) / real_of_int (b - a) * real_of_int (d - c)\<bar>) / 2 ^ 53
                  + 1 / 2 ^ 1019"
proof -
  let ?q = "real_of_int (x - a) / real_of_int (b - a)"
  let ?r = "real_of_int (d - c)"
  let ?h = "(1::real) / 2 ^ 1075"
  let ?q1 = "round_double ?q"
  let ?p1 = "round_double (?q1 * ?r)"
  let ?y = "round_double (real_of_int c + ?p1)"
  note br = abs_real_of_int_le [OF assms(6)]
  have rr: "round_double ?r = ?r" by (rule round_double_int [OF assms(6)])
  have fwd: "map_value_py (PyInt x) (PyInt a) (PyInt b) (PyInt c) (PyInt d) = Inr (PyFloat (Finite ?y))"
    using map_value_py_rounded [OF assms(1) assms(2) assms(3) assms(4) assms(5)] by (simp only: rr)
  have h0: "0 \<le> ?h" by simp
  have f0: "\<bar>?y - (real_of_int c + ?q * ?r)\<bar>
      \<le> (\<bar>real_of_int c\<bar> + 5 * \<bar>?q * ?r\<bar>) / 9007199254740992 + 3 * (?h * \<bar>?r\<bar>) + 3 * ?h"
    by (rule forward_error [OF h0 round_double_error_num round_double_error_num round_double_error_num])
  have hr: "?h * \<bar>?r\<bar> \<le> ?h * 2 ^ 53" using br by (intro mult_left_mono) simp_all
  have t0: "3 * (?h * 2 ^ 53) + 3 * ?h \<le> 1 / 2 ^ 1019" by simp
  have N: "(2::real) ^ 53 = 9007199254740992" by simp
  have e0: "\<bar>?y - (real_of_int c + ?q * ?r)\<bar>
      \<le> (\<bar>real_of_int c\<bar> + 5 * \<bar>?q * ?r\<bar>) / 2 ^ 53 + 1 / 2 ^ 1019"
    unfolding N using f0 hr t0 by linarith
  from fwd e0 show ?thesis by blast
qed


lemma map_value_py_tolerance:
  assumes "a \<noteq> b" and "c \<noteq> d"
    and "\<bar>x\<bar> \<le> 2 ^ 53" and "\<bar>a\<bar> \<le> 2 ^ 53" and "\<bar>c\<bar> \<le> 2 ^ 53" and "\<bar>d\<bar> \<le> 2 ^ 53"
    and "\<bar>x - a\<bar> \<le> 2 ^ 53" and "\<bar>b - a\<bar> \<le> 2 ^ 53" and "\<bar>d - c\<bar> \<le> 2 ^ 53"
  shows "\<exists>y x'. map_value_py (PyInt x) (PyInt a) (PyInt b) (PyInt c) (PyInt d) = Inr (PyFloat (Finite y))
           \<and> map_value_py (PyFloat (Finite y)) (PyInt c) (PyInt d) (PyInt a) (PyInt b) = Inr (PyFloat (Finite x'))
           \<and> \<bar>y - (real_of_int c + real_of_int (x - a) / real_of_int (b - a) * real_of_int (d - c))\<bar>
               \<le> (\<bar>real_of_int c\<bar>
                   + 5 * \<bar>real_of_int (x - a) / real_of_int (b - a) * real_of_int (d - c)\<bar>) / 2 ^ 53
                  + 1 / 2 ^ 1019
           \<and> \<bar>x' - real_of_int x\<bar>
               \<le> (\<bar>real_of_int a\<bar> + 13 * \<bar>real_of_int (x - a)\<bar>
                   + 5 * (\<bar>real_of_int (b - a)\<bar> * \<bar>real_of_int c\<bar> / \<bar>real_of_int (d - c)\<bar>)) / 2 ^ 53
                  + 1 / 2 ^ 1018"
proof -
  let ?q = "real_of_int (x - a) / real_of_int (b - a)"
  let ?r = "real_of_int (d - c)"
  let ?s = "real_of_int (b - a)"
  let ?h = "(1::real) / 2 ^ 1075"
  let ?q1 = "round_double ?q"
  let ?p1 = "round_double (?q1 * ?r)"
  let ?y = "round_double (real_of_int c + ?p1)"
  let ?s1 = "round_double (?y + - real_of_int c)"
  let ?t1 = "round_double (?s1 / ?r)"
  let ?w = "round_double (?t1 * ?s)"
  let ?x' = "round_double (real_of_int a + ?w)"
  note bc = abs_real_of_int_le [OF assms(5)] and bxa = abs_real_of_int_le [OF assms(7)]
    and bs = abs_real_of_int_le [OF assms(8)] and br = abs_real_of_int_le [OF assms(9)]
  have sz: "b - a \<noteq> 0" using assms(1) by simp
  have rz: "d - c \<noteq> 0" using assms(2) by simp
  have rr: "round_double ?r = ?r" by (rule round_double_int [OF assms(9)])
  have fwd: "map_value_py (PyInt x) (PyInt a) (PyInt b) (PyInt c) (PyInt d) = Inr (PyFloat (Finite ?y))"
    using map_value_py_rounded [OF assms(1) assms(3) assms(4) assms(5) assms(6)] by (simp only: rr)
  have q: "\<bar>?q\<bar> \<le> 2 ^ 53" by (rule order_trans [OF abs_quotient_le [OF sz] bxa])
  have q1: "\<bar>?q1\<bar> \<le> 2 ^ 54" using bound_step [OF round_double_bound q] by simp
  have "\<bar>?q1\<bar> * \<bar>?r\<bar> \<le> 2 ^ 54 * 2 ^ 53" using q1 br by (intro mult_mono) simp_all
  then have pr: "\<bar>?q1 * ?r\<bar> \<le> 2 ^ 107" by (simp add: abs_mult)
  have p1: "\<bar>?p1\<bar> \<le> 2 ^ 108" using bound_step [OF round_double_bound pr] by simp
  have cp: "\<bar>real_of_int c + ?p1\<bar> \<le> 2 ^ 53 + 2 ^ 108" by (rule abs_add_bound [OF bc p1])
  have y: "\<bar>?y\<bar> \<le> 2 ^ 113" using bound_step [OF round_double_bound cp] by simp
  have bwd: "map_value_py (PyFloat (Finite ?y)) (PyInt c) (PyInt d) (PyInt a) (PyInt b) = Inr (PyFloat (Finite ?x'))"
    by (rule map_value_py_back_rounded [OF assms(2) assms(5) assms(9) assms(4) assms(8) y])
  have h0: "0 \<le> ?h" by simp
  have r1: "1 \<le> \<bar>?r\<bar>"
  proof -
    from rz have "1 \<le> \<bar>d - c\<bar>" by simp
    then show ?thesis by (metis of_int_abs of_int_le_iff of_int_1)
  qed
  have f0: "\<bar>?y - (real_of_int c + ?q * ?r)\<bar>
      \<le> (\<bar>real_of_int c\<bar> + 5 * \<bar>?q * ?r\<bar>) / 9007199254740992 + 3 * (?h * \<bar>?r\<bar>) + 3 * ?h"
    by (rule forward_error [OF h0 round_double_error_num round_double_error_num round_double_error_num])
  have k: "\<bar>?x' - (real_of_int a + ?q * ?s)\<bar>
           \<le> (\<bar>real_of_int a\<bar> + 13 * \<bar>?q * ?s\<bar> + 5 * (\<bar>?s\<bar> * \<bar>real_of_int c\<bar> / \<bar>?r\<bar>)) / 9007199254740992
              + 13 * (?h * \<bar>?s\<bar>) + 3 * ?h"
    by (rule backward_error [OF h0 r1 f0 round_double_error_num round_double_error_num
          round_double_error_num round_double_error_num])
  have qs: "?q * ?s = real_of_int (x - a)" using sz by simp
  have ax: "real_of_int a + real_of_int (x - a) = real_of_int x" by simp
  have hs: "?h * \<bar>?s\<bar> \<le> ?h * 2 ^ 53" using bs by (intro mult_left_mono) simp_all
  have hr: "?h * \<bar>?r\<bar> \<le> ?h * 2 ^ 53" using br by (intro mult_left_mono) simp_all
  have t1: "13 * (?h * 2 ^ 53) + 3 * ?h \<le> 1 / 2 ^ 1018" by simp
  have t0: "3 * (?h * 2 ^ 53) + 3 * ?h \<le> 1 / 2 ^ 1019" by simp
  have N: "(2::real) ^ 53 = 9007199254740992" by simp
  have e0: "\<bar>?y - (real_of_int c + ?q * ?r)\<bar>
      \<le> (\<bar>real_of_int c\<bar> + 5 * \<bar>?q * ?r\<bar>) / 2 ^ 53 + 1 / 2 ^ 1019"
    unfolding N using f0 hr t0 by linarith
  have e1: "\<bar>?x' - real_of_int x\<bar>
           \<le> (\<bar>real_of_int a\<bar> + 13 * \<bar>real_of_int (x - a)\<bar>
               + 5 * (\<bar>?s\<bar> * \<bar>real_of_int c\<bar> / \<bar>?r\<bar>)) / 2 ^ 53 + 1 / 2 ^ 1018"
    unfolding N using k hs t1 unfolding qs ax by linarith
  from fwd bwd e0 e1 show ?thesis by blast
qed

lemma map_value_py_round_trip_error:
  assumes "a \<noteq> b" and "c \<noteq> d"
    and "\<bar>x\<bar> \<le> 2 ^ 53" and "\<bar>a\<bar> \<le> 2 ^ 53" and "\<bar>c\<bar> \<le> 2 ^ 53" and "\<bar>d\<bar> \<le> 2 ^ 53"
    and "\<bar>x - a\<bar> \<le> 2 ^ 53" and "\<bar>b - a\<bar> \<le> 2 ^ 53" and "\<bar>d - c\<bar> \<le> 2 ^ 53"
  shows "\<exists>y x'. map_value_py (PyInt x) (PyInt a) (PyInt b) (PyInt c) (PyInt d) = Inr (PyFloat (Finite y))
           \<and> map_value_py (PyFloat (Finite y)) (PyInt c) (PyInt d) (PyInt a) (PyInt b) = Inr (PyFloat (Finite x'))
           \<and> \<bar>x' - real_of_int x\<bar>
               \<le> (\<bar>real_of_int a\<bar> + 13 * \<bar>real_of_int (x - a)\<bar>
                   + 5 * (\<bar>real_of_int (b - a)\<bar> * \<bar>real_of_int c\<bar> / \<bar>real_of_int (d - c)\<bar>)) / 2 ^ 53
                  + 1 / 2 ^ 1018"
  using map_value_py_tolerance [OF assms] by blast


section \<open>Some roundings\<close>

lemma exponent_a: "exponent 9007199254740993 = 1"
  by (rule exponent_eq) simp_all

lemma round_double_a: "round_double 9007199254740993 = 9007199254740992"
  by (simp add: round_double_def exponent_a round_even_def)

lemma exponent_q: "exponent (64 / 127) = - 53"
  by (rule exponent_eq) simp_all

lemma round_double_q: "round_double (64 / 127) = 567382630219905 / 1125899906842624"
  by (simp add: round_double_def exponent_q round_even_def)

lemma exponent_2q: "exponent (567382630219905 / 562949953421312) = - 52"
  by (rule exponent_eq) simp_all

lemma round_double_2q: "round_double (567382630219905 / 562949953421312) = 567382630219905 / 562949953421312"
  by (simp add: round_double_def exponent_2q round_even_def)

lemma exponent_s: "exponent (9007199254740992 + 567382630219905 / 562949953421312) = 1"
  by (rule exponent_eq) simp_all

lemma round_double_s: "round_double (9007199254740992 + 567382630219905 / 562949953421312) = 9007199254740994"
  unfolding round_double_def exponent_s by (simp add: round_even_def)

lemma to_double_2p53_1: "to_double 9007199254740993 = Finite 9007199254740992"
  unfolding to_double_def round_double_a by simp

lemma exponent_b: "exponent 18014398509481983 = 1"
  by (rule exponent_eq) simp_all

lemma round_double_b: "round_double 18014398509481983 = 18014398509481984"
  unfolding round_double_def exponent_b by (simp add: round_even_def)

lemma to_double_b: "to_double 18014398509481983 = Finite 18014398509481984"
  unfolding to_double_def round_double_b by simp

lemma exponent_c: "exponent 18014398509481984 = 2"
  by (rule exponent_eq) simp_all

lemma round_double_c: "round_double 18014398509481984 = 18014398509481984"
  unfolding round_double_def exponent_c by (simp add: round_even_def)

lemma to_double_c: "to_double 18014398509481984 = Finite 18014398509481984"
  unfolding to_double_def round_double_c by simp

lemma exponent_d:
  "exponent (8106479329266893 / 9007199254740992 + - (3602879701896397 / 18014398509481984)) = - 53"
  by (rule exponent_eq) simp_all

lemma round_double_d:
  "round_double (8106479329266893 / 9007199254740992 + - (3602879701896397 / 18014398509481984))
     = 3152519739159347 / 4503599627370496"
  unfolding round_double_def exponent_d by (simp add: round_even_def)

lemma to_double_d:
  "to_double (8106479329266893 / 9007199254740992 + - (3602879701896397 / 18014398509481984))
     = Finite (3152519739159347 / 4503599627370496)"
  unfolding to_double_def round_double_d by simp

lemma exponent_e: "exponent (1 * (3152519739159347 / 4503599627370496)) = - 53"
  by (rule exponent_eq) simp_all

lemma round_double_e:
  "round_double (1 * (3152519739159347 / 4503599627370496)) = 3152519739159347 / 4503599627370496"
  unfolding round_double_def exponent_e by (simp add: round_even_def)

lemma to_double_e:
  "to_double (1 * (3152519739159347 / 4503599627370496)) = Finite (3152519739159347 / 4503599627370496)"
  unfolding to_double_def round_double_e by simp

lemma exponent_f:
  "exponent (3602879701896397 / 18014398509481984 + 3152519739159347 / 4503599627370496) = - 53"
  by (rule exponent_eq) simp_all

lemma round_double_f:
  "round_double (3602879701896397 / 18014398509481984 + 3152519739159347 / 4503599627370496)
     = 2026619832316723 / 2251799813685248"
  unfolding round_double_def exponent_f by (simp add: round_even_def)

lemma to_double_f:
  "to_double (3602879701896397 / 18014398509481984 + 3152519739159347 / 4503599627370496)
     = Finite (2026619832316723 / 2251799813685248)"
  unfolding to_double_def round_double_f by simp

section \<open>\<^verbatim>\<open>map_value\<close>: the linear interpolation and its inverse\<close>

text \<open>
  C1, as the code has it. Over the real numbers \<open>map_value\<close> returns
  \<open>lowerOut + ((x - lowerIn) / (upperIn - lowerIn)) * (upperOut - lowerOut)\<close> for all
  inputs with \<open>lowerIn \<noteq> upperIn\<close>, and maps the input endpoints to the output endpoints
  exactly. The program computes in Python's arithmetic, where neither holds for all
  inputs. There, for integer arguments \<open>x\<close>, \<open>a\<close>, \<open>c\<close>, \<open>d\<close> of magnitude at most
  \<open>2 ^ 53\<close> and any integer \<open>b \<noteq> a\<close>, \<open>map_value_py x a b c d\<close> raises nothing and
  returns the float that the formula gives when the quotient, the difference \<open>d - c\<close>,
  the product and the sum are each rounded to the nearest double. When also
  \<open>\<bar>d - c\<bar> \<le> 2 ^ 53\<close>, that float differs from the real value
  \<open>c + ((x - a) / (b - a)) * (d - c)\<close> of the formula by at most
  \<open>(\<bar>c\<bar> + 5 * \<bar>((x - a) / (b - a)) * (d - c)\<bar>) / 2 ^ 53 + 1 / 2 ^ 1019\<close>, and
  \<open>map_value_py\<close> maps \<open>a\<close> to the float \<open>c\<close> and \<open>b\<close> to the float \<open>d\<close> exactly.
\<close>

theorem map_value_py_linear:
  assumes "a \<noteq> b" and "\<bar>x\<bar> \<le> 2 ^ 53" and "\<bar>a\<bar> \<le> 2 ^ 53" and "\<bar>c\<bar> \<le> 2 ^ 53" and "\<bar>d\<bar> \<le> 2 ^ 53"
  shows "map_value_py (PyInt x) (PyInt a) (PyInt b) (PyInt c) (PyInt d) =
           Inr (PyFloat (Finite (round_double (real_of_int c
             + round_double (round_double (real_of_int (x - a) / real_of_int (b - a))
                             * round_double (real_of_int (d - c)))))))
       \<and> (\<bar>d - c\<bar> \<le> 2 ^ 53 \<longrightarrow>
            (\<exists>y. map_value_py (PyInt x) (PyInt a) (PyInt b) (PyInt c) (PyInt d) = Inr (PyFloat (Finite y))
               \<and> \<bar>y - (real_of_int c + real_of_int (x - a) / real_of_int (b - a) * real_of_int (d - c))\<bar>
                   \<le> (\<bar>real_of_int c\<bar>
                       + 5 * \<bar>real_of_int (x - a) / real_of_int (b - a) * real_of_int (d - c)\<bar>) / 2 ^ 53
                      + 1 / 2 ^ 1019)
          \<and> map_value_py (PyInt a) (PyInt a) (PyInt b) (PyInt c) (PyInt d) = Inr (PyFloat (Finite (real_of_int c)))
          \<and> map_value_py (PyInt b) (PyInt a) (PyInt b) (PyInt c) (PyInt d) = Inr (PyFloat (Finite (real_of_int d))))
       \<and> (lowerIn \<noteq> upperIn \<longrightarrow>
            map_value r lowerIn upperIn lowerOut upperOut =
              Inr (lowerOut + ((r - lowerIn) / (upperIn - lowerIn)) * (upperOut - lowerOut))
          \<and> map_value lowerIn lowerIn upperIn lowerOut upperOut = Inr lowerOut
          \<and> map_value upperIn lowerIn upperIn lowerOut upperOut = Inr upperOut)"
proof (intro conjI impI)
  show "map_value_py (PyInt x) (PyInt a) (PyInt b) (PyInt c) (PyInt d) =
           Inr (PyFloat (Finite (round_double (real_of_int c
             + round_double (round_double (real_of_int (x - a) / real_of_int (b - a))
                             * round_double (real_of_int (d - c)))))))"
    by (rule map_value_py_rounded [OF assms])
  show "\<exists>y. map_value_py (PyInt x) (PyInt a) (PyInt b) (PyInt c) (PyInt d) = Inr (PyFloat (Finite y))
               \<and> \<bar>y - (real_of_int c + real_of_int (x - a) / real_of_int (b - a) * real_of_int (d - c))\<bar>
                   \<le> (\<bar>real_of_int c\<bar>
                       + 5 * \<bar>real_of_int (x - a) / real_of_int (b - a) * real_of_int (d - c)\<bar>) / 2 ^ 53
                      + 1 / 2 ^ 1019"
    if "\<bar>d - c\<bar> \<le> 2 ^ 53"
    by (rule map_value_py_formula_error [OF assms that])
  show "map_value_py (PyInt a) (PyInt a) (PyInt b) (PyInt c) (PyInt d) = Inr (PyFloat (Finite (real_of_int c)))"
    if "\<bar>d - c\<bar> \<le> 2 ^ 53"
    by (rule map_value_py_lower [OF assms(1) assms(4) that])
  show "map_value_py (PyInt b) (PyInt a) (PyInt b) (PyInt c) (PyInt d) = Inr (PyFloat (Finite (real_of_int d)))"
    if "\<bar>d - c\<bar> \<le> 2 ^ 53"
    by (rule map_value_py_upper [OF assms(1) assms(4) assms(5) that])
  show "map_value r lowerIn upperIn lowerOut upperOut =
              Inr (lowerOut + ((r - lowerIn) / (upperIn - lowerIn)) * (upperOut - lowerOut))"
    if "lowerIn \<noteq> upperIn"
    using that by (simp add: map_value_def)
  show "map_value lowerIn lowerIn upperIn lowerOut upperOut = Inr lowerOut" if "lowerIn \<noteq> upperIn"
    using that by (simp add: map_value_def)
  show "map_value upperIn lowerIn upperIn lowerOut upperOut = Inr upperOut" if "lowerIn \<noteq> upperIn"
    using that by (simp add: map_value_def)
qed

theorem map_value_py_linear_witness:
  "map_value_py (PyInt 64) (PyInt 0) (PyInt 127) (PyInt 10) (PyInt 100) =
     Inr (PyFloat (Finite (round_double (10 + round_double (round_double (64 / 127) * round_double 90)))))
   \<and> (\<exists>y. map_value_py (PyInt 64) (PyInt 0) (PyInt 127) (PyInt 10) (PyInt 100) = Inr (PyFloat (Finite y))
         \<and> \<bar>y - (10 + 64 / 127 * 90)\<bar> \<le> (10 + 5 * (64 / 127 * 90)) / 2 ^ 53 + 1 / 2 ^ 1019)
   \<and> map_value_py (PyInt 0) (PyInt 0) (PyInt 127) (PyInt 10) (PyInt 100) = Inr (PyFloat (Finite 10))
   \<and> map_value_py (PyInt 127) (PyInt 0) (PyInt 127) (PyInt 10) (PyInt 100) = Inr (PyFloat (Finite 100))
   \<and> map_value 64 0 127 10 100 = Inr (10 + ((64 - 0) / (127 - 0)) * (100 - 10))
   \<and> map_value 0 0 127 10 100 = Inr 10
   \<and> map_value 127 0 127 10 100 = Inr 100"
proof -
  have h: "(0::int) \<noteq> 127" "\<bar>64::int\<bar> \<le> 2 ^ 53" "\<bar>0::int\<bar> \<le> 2 ^ 53" "\<bar>10::int\<bar> \<le> 2 ^ 53"
    "\<bar>100::int\<bar> \<le> 2 ^ 53"
    by simp_all
  have k: "\<bar>(100::int) - 10\<bar> \<le> 2 ^ 53" "(0::real) \<noteq> 127" by simp_all
  note t = map_value_py_linear [OF h, of 0 127 64 10 100]
  from t k have "\<exists>y. map_value_py (PyInt 64) (PyInt 0) (PyInt 127) (PyInt 10) (PyInt 100) = Inr (PyFloat (Finite y))
      \<and> \<bar>y - (real_of_int 10 + real_of_int (64 - 0) / real_of_int (127 - 0) * real_of_int (100 - 10))\<bar>
          \<le> (\<bar>real_of_int 10\<bar>
              + 5 * \<bar>real_of_int (64 - 0) / real_of_int (127 - 0) * real_of_int (100 - 10)\<bar>) / 2 ^ 53
             + 1 / 2 ^ 1019"
    by blast
  then obtain y where y1: "map_value_py (PyInt 64) (PyInt 0) (PyInt 127) (PyInt 10) (PyInt 100) = Inr (PyFloat (Finite y))"
    and y2: "\<bar>y - (real_of_int 10 + real_of_int (64 - 0) / real_of_int (127 - 0) * real_of_int (100 - 10))\<bar>
          \<le> (\<bar>real_of_int 10\<bar>
              + 5 * \<bar>real_of_int (64 - 0) / real_of_int (127 - 0) * real_of_int (100 - 10)\<bar>) / 2 ^ 53
             + 1 / 2 ^ 1019"
    by blast
  from y2 have y3: "\<bar>y - (10 + 64 / 127 * 90)\<bar> \<le> (10 + 5 * (64 / 127 * 90)) / 2 ^ 53 + 1 / 2 ^ 1019"
    by simp
  from t k have rest: "map_value_py (PyInt 64) (PyInt 0) (PyInt 127) (PyInt 10) (PyInt 100) =
     Inr (PyFloat (Finite (round_double (10 + round_double (round_double (64 / 127) * round_double 90)))))
   \<and> map_value_py (PyInt 0) (PyInt 0) (PyInt 127) (PyInt 10) (PyInt 100) = Inr (PyFloat (Finite 10))
   \<and> map_value_py (PyInt 127) (PyInt 0) (PyInt 127) (PyInt 10) (PyInt 100) = Inr (PyFloat (Finite 100))
   \<and> map_value 64 0 127 10 100 = Inr (10 + ((64 - 0) / (127 - 0)) * (100 - 10))
   \<and> map_value 0 0 127 10 100 = Inr 10
   \<and> map_value 127 0 127 10 100 = Inr 100"
    by simp
  from y1 y3 rest show ?thesis by blast
qed

text \<open>
  In Python's arithmetic the upper endpoint is missed when the outputs are larger
  integers, integers too far apart, or floats: \<^verbatim>\<open>map_value(127, 0, 127, 0, 2**53 + 1)\<close>
  is \<open>2 ^ 53\<close>; \<^verbatim>\<open>map_value(127, 0, 127, -2**53, 2**53 - 1)\<close> is \<open>2 ^ 53\<close>; and
  \<^verbatim>\<open>map_value(1, 0, 1, 0.2, 0.9)\<close>, on the doubles nearest to 0.2 and 0.9, is the
  double just below that of 0.9 (\<^verbatim>\<open>0.8999999999999999\<close>).
\<close>

theorem map_value_py_endpoint_counterexample:
  "map_value_py (PyInt 127) (PyInt 0) (PyInt 127) (PyInt 0) (PyInt 9007199254740993)
     = Inr (PyFloat (Finite 9007199254740992))
   \<and> (9007199254740992::real) \<noteq> real_of_int 9007199254740993
   \<and> map_value_py (PyInt 127) (PyInt 0) (PyInt 127) (PyInt (- 9007199254740992)) (PyInt 9007199254740991)
     = Inr (PyFloat (Finite 9007199254740992))
   \<and> (9007199254740992::real) \<noteq> real_of_int 9007199254740991
   \<and> map_value_py (PyInt 1) (PyInt 0) (PyInt 1)
        (PyFloat (Finite (3602879701896397 / 18014398509481984)))
        (PyFloat (Finite (8106479329266893 / 9007199254740992)))
     = Inr (PyFloat (Finite (2026619832316723 / 2251799813685248)))
   \<and> (2026619832316723 / 2251799813685248 :: real) \<noteq> 8106479329266893 / 9007199254740992"
proof -
  have b: "to_double 9007199254740992 = Finite 9007199254740992"
    using to_double_int [of 9007199254740992] by simp
  have one: "py_truediv (PyInt 127) (PyInt 127) = Inr (PyFloat (Finite 1))"
    "py_truediv (PyInt 1) (PyInt 1) = Inr (PyFloat (Finite 1))"
    by (simp_all add: to_double_1)
  have a2: "py_mul (PyFloat (Finite 1)) (PyInt 9007199254740993) = Inr (PyFloat (Finite 9007199254740992))"
    by (simp add: float_op_def to_float_def to_double_2p53_1 b)
  have a3: "py_add (PyInt 0) (PyFloat (Finite 9007199254740992)) = Inr (PyFloat (Finite 9007199254740992))"
    by (simp add: float_op_def to_float_def to_double_0 b)
  have A: "map_value_py (PyInt 127) (PyInt 0) (PyInt 127) (PyInt 0) (PyInt 9007199254740993)
     = Inr (PyFloat (Finite 9007199254740992))"
    by (simp only: map_value_py_def py_sub.simps(1) diff_zero sum.case one a2 a3)
  have bd: "(9007199254740991::int) - (- 9007199254740992) = 18014398509481983" by simp
  have b2: "py_mul (PyFloat (Finite 1)) (PyInt 18014398509481983) = Inr (PyFloat (Finite 18014398509481984))"
    by (simp add: float_op_def to_float_def to_double_b to_double_c)
  have nb: "to_double (- 9007199254740992) = Finite (- 9007199254740992)"
    using to_double_int [of "- 9007199254740992"] by simp
  have b3: "py_add (PyInt (- 9007199254740992)) (PyFloat (Finite 18014398509481984))
      = Inr (PyFloat (Finite 9007199254740992))"
    by (simp add: float_op_def to_float_def nb b)
  have B: "map_value_py (PyInt 127) (PyInt 0) (PyInt 127) (PyInt (- 9007199254740992)) (PyInt 9007199254740991)
     = Inr (PyFloat (Finite 9007199254740992))"
    by (simp only: map_value_py_def py_sub.simps(1) diff_zero bd sum.case one b2 b3)
  have c1: "py_sub (PyFloat (Finite (8106479329266893 / 9007199254740992)))
                   (PyFloat (Finite (3602879701896397 / 18014398509481984)))
      = Inr (PyFloat (Finite (3152519739159347 / 4503599627370496)))"
    by (simp only: py_sub.simps float_op_def to_float_float sum.case fsub_def fneg.simps fadd.simps to_double_d)
  have c2: "py_mul (PyFloat (Finite 1)) (PyFloat (Finite (3152519739159347 / 4503599627370496)))
      = Inr (PyFloat (Finite (3152519739159347 / 4503599627370496)))"
    by (simp only: py_mul.simps float_op_def to_float_float sum.case fmul.simps to_double_e)
  have c3: "py_add (PyFloat (Finite (3602879701896397 / 18014398509481984)))
                   (PyFloat (Finite (3152519739159347 / 4503599627370496)))
      = Inr (PyFloat (Finite (2026619832316723 / 2251799813685248)))"
    by (simp only: py_add.simps float_op_def to_float_float sum.case fadd.simps to_double_f)
  have C: "map_value_py (PyInt 1) (PyInt 0) (PyInt 1)
        (PyFloat (Finite (3602879701896397 / 18014398509481984)))
        (PyFloat (Finite (8106479329266893 / 9007199254740992)))
     = Inr (PyFloat (Finite (2026619832316723 / 2251799813685248)))"
    by (simp only: map_value_py_def py_sub.simps(1) diff_zero sum.case one c1 c2 c3)
  from A B C show ?thesis by simp
qed

text \<open>
  C8, as the code has it. Over the real numbers \<open>map_value\<close> is affine-invertible: for
  every \<open>x\<close> and every \<open>a \<noteq> b\<close>, \<open>c \<noteq> d\<close>, applying \<open>map_value _ c d a b\<close> to
  \<open>map_value x a b c d\<close> returns \<open>x\<close> exactly. In Python's arithmetic, for integers
  \<open>a \<noteq> b\<close> and \<open>c \<noteq> d\<close> of magnitude at most \<open>2 ^ 53\<close> whose differences \<open>b - a\<close>
  and \<open>d - c\<close> are at most \<open>2 ^ 53\<close> in magnitude too: for every integer \<open>x\<close> with
  \<open>\<bar>x\<bar> \<le> 2 ^ 53\<close> and \<open>\<bar>x - a\<bar> \<le> 2 ^ 53\<close> the round trip raises nothing and returns
  a float \<open>x'\<close> with
  \<open>\<bar>x' - x\<bar> \<le> (\<bar>a\<bar> + 13 * \<bar>x - a\<bar> + 5 * (\<bar>b - a\<bar> * \<bar>c\<bar> / \<bar>d - c\<bar>)) / 2 ^ 53 + 1 / 2 ^ 1018\<close>,
  a tolerance that depends on the ranges; and at the two endpoints \<open>x = a\<close> and
  \<open>x = b\<close> it returns the float \<open>x\<close> exactly. No tolerance holds over all ranges.
\<close>

theorem map_value_py_round_trip:
  assumes "a \<noteq> b" and "c \<noteq> d"
    and "\<bar>a\<bar> \<le> 2 ^ 53" and "\<bar>b\<bar> \<le> 2 ^ 53" and "\<bar>b - a\<bar> \<le> 2 ^ 53"
    and "\<bar>c\<bar> \<le> 2 ^ 53" and "\<bar>d\<bar> \<le> 2 ^ 53" and "\<bar>d - c\<bar> \<le> 2 ^ 53"
  shows "(\<bar>x\<bar> \<le> 2 ^ 53 \<and> \<bar>x - a\<bar> \<le> 2 ^ 53 \<longrightarrow>
           (\<exists>y x'. map_value_py (PyInt x) (PyInt a) (PyInt b) (PyInt c) (PyInt d) = Inr (PyFloat (Finite y))
              \<and> map_value_py (PyFloat (Finite y)) (PyInt c) (PyInt d) (PyInt a) (PyInt b)
                  = Inr (PyFloat (Finite x'))
              \<and> \<bar>x' - real_of_int x\<bar>
                  \<le> (\<bar>real_of_int a\<bar> + 13 * \<bar>real_of_int (x - a)\<bar>
                      + 5 * (\<bar>real_of_int (b - a)\<bar> * \<bar>real_of_int c\<bar> / \<bar>real_of_int (d - c)\<bar>)) / 2 ^ 53
                     + 1 / 2 ^ 1018))
       \<and> (\<exists>y. map_value_py (PyInt a) (PyInt a) (PyInt b) (PyInt c) (PyInt d) = Inr y
            \<and> map_value_py y (PyInt c) (PyInt d) (PyInt a) (PyInt b) = Inr (PyFloat (Finite (real_of_int a))))
       \<and> (\<exists>y. map_value_py (PyInt b) (PyInt a) (PyInt b) (PyInt c) (PyInt d) = Inr y
            \<and> map_value_py y (PyInt c) (PyInt d) (PyInt a) (PyInt b) = Inr (PyFloat (Finite (real_of_int b))))
       \<and> (lowerIn \<noteq> upperIn \<and> lowerOut \<noteq> upperOut \<longrightarrow>
            (\<exists>y. map_value r lowerIn upperIn lowerOut upperOut = Inr y
               \<and> map_value y lowerOut upperOut lowerIn upperIn = Inr r))"
proof (intro conjI impI)
  show "\<exists>y x'. map_value_py (PyInt x) (PyInt a) (PyInt b) (PyInt c) (PyInt d) = Inr (PyFloat (Finite y))
              \<and> map_value_py (PyFloat (Finite y)) (PyInt c) (PyInt d) (PyInt a) (PyInt b)
                  = Inr (PyFloat (Finite x'))
              \<and> \<bar>x' - real_of_int x\<bar>
                  \<le> (\<bar>real_of_int a\<bar> + 13 * \<bar>real_of_int (x - a)\<bar>
                      + 5 * (\<bar>real_of_int (b - a)\<bar> * \<bar>real_of_int c\<bar> / \<bar>real_of_int (d - c)\<bar>)) / 2 ^ 53
                     + 1 / 2 ^ 1018"
    if h: "\<bar>x\<bar> \<le> 2 ^ 53 \<and> \<bar>x - a\<bar> \<le> 2 ^ 53"
    by (rule map_value_py_round_trip_error [OF assms(1) assms(2) conjunct1 [OF h] assms(3) assms(6)
          assms(7) conjunct2 [OF h] assms(5) assms(8)])
  show "\<exists>y. map_value_py (PyInt a) (PyInt a) (PyInt b) (PyInt c) (PyInt d) = Inr y
            \<and> map_value_py y (PyInt c) (PyInt d) (PyInt a) (PyInt b) = Inr (PyFloat (Finite (real_of_int a)))"
    using map_value_py_lower [OF assms(1) assms(6) assms(8)]
      map_value_py_back_lower [OF assms(2) assms(6) assms(8) assms(3) assms(5)]
    by simp
  show "\<exists>y. map_value_py (PyInt b) (PyInt a) (PyInt b) (PyInt c) (PyInt d) = Inr y
            \<and> map_value_py y (PyInt c) (PyInt d) (PyInt a) (PyInt b) = Inr (PyFloat (Finite (real_of_int b)))"
    using map_value_py_upper [OF assms(1) assms(6) assms(7) assms(8)]
      map_value_py_back_upper [OF assms(2) assms(6) assms(8) assms(3) assms(4) assms(5)]
    by simp
  show "\<exists>y. map_value r lowerIn upperIn lowerOut upperOut = Inr y
               \<and> map_value y lowerOut upperOut lowerIn upperIn = Inr r"
    if "lowerIn \<noteq> upperIn \<and> lowerOut \<noteq> upperOut"
    using that by (simp add: map_value_def)
qed

theorem map_value_py_round_trip_witness:
  "(\<exists>y x'. map_value_py (PyInt 64) (PyInt 0) (PyInt 127) (PyInt 10) (PyInt 100) = Inr (PyFloat (Finite y))
        \<and> map_value_py (PyFloat (Finite y)) (PyInt 10) (PyInt 100) (PyInt 0) (PyInt 127)
            = Inr (PyFloat (Finite x'))
        \<and> \<bar>x' - 64\<bar> \<le> (0 + 13 * 64 + 5 * (127 * 10 / 90)) / 2 ^ 53 + 1 / 2 ^ 1018)
   \<and> (\<exists>y. map_value_py (PyInt 0) (PyInt 0) (PyInt 127) (PyInt 10) (PyInt 100) = Inr y
            \<and> map_value_py y (PyInt 10) (PyInt 100) (PyInt 0) (PyInt 127) = Inr (PyFloat (Finite 0)))
   \<and> (\<exists>y. map_value_py (PyInt 127) (PyInt 0) (PyInt 127) (PyInt 10) (PyInt 100) = Inr y
            \<and> map_value_py y (PyInt 10) (PyInt 100) (PyInt 0) (PyInt 127) = Inr (PyFloat (Finite 127)))
   \<and> (\<exists>y. map_value 64 0 127 10 100 = Inr y \<and> map_value y 10 100 0 127 = Inr 64)"
proof -
  have h: "(0::int) \<noteq> 127" "(10::int) \<noteq> 100" "\<bar>0::int\<bar> \<le> 2 ^ 53" "\<bar>127::int\<bar> \<le> 2 ^ 53"
    "\<bar>(127::int) - 0\<bar> \<le> 2 ^ 53" "\<bar>10::int\<bar> \<le> 2 ^ 53" "\<bar>100::int\<bar> \<le> 2 ^ 53"
    "\<bar>(100::int) - 10\<bar> \<le> 2 ^ 53"
    by simp_all
  have k: "(0::real) \<noteq> 127 \<and> (10::real) \<noteq> 100" "\<bar>64::int\<bar> \<le> 2 ^ 53 \<and> \<bar>(64::int) - 0\<bar> \<le> 2 ^ 53"
    by simp_all
  from map_value_py_round_trip [OF h, of 64 0 127 10 100 64] k
  show ?thesis by simp
qed

text \<open>
  With the integers \<open>x = 64\<close>, \<open>a = 0\<close>, \<open>b = 127\<close>, \<open>c = 2 ^ 53\<close> and
  \<open>d = 2 ^ 53 + 2\<close>, \<^verbatim>\<open>map_value(x, a, b, c, d)\<close> is the float \<open>2 ^ 53 + 2\<close>, and the
  way back gives \<^verbatim>\<open>127.0\<close>, not 64.
\<close>

theorem map_value_py_round_trip_counterexample:
  "map_value_py (PyInt 64) (PyInt 0) (PyInt 127) (PyInt 9007199254740992) (PyInt 9007199254740994)
     = Inr (PyFloat (Finite 9007199254740994))
   \<and> map_value_py (PyFloat (Finite 9007199254740994)) (PyInt 9007199254740992) (PyInt 9007199254740994)
        (PyInt 0) (PyInt 127)
     = Inr (PyFloat (Finite 127))
   \<and> (127::real) \<noteq> real_of_int 64"
proof -
  have q: "to_double (64 / 127) = Finite (567382630219905 / 1125899906842624)"
    by (simp add: to_double_def round_double_q)
  have 1: "py_truediv (PyInt 64) (PyInt 127) = Inr (PyFloat (Finite (567382630219905 / 1125899906842624)))"
    by (simp add: q)
  have t: "to_double 2 = Finite 2" using to_double_int [of 2] by simp
  have q2: "to_double (567382630219905 / 562949953421312) = Finite (567382630219905 / 562949953421312)"
    by (simp add: to_double_def round_double_2q)
  have 2: "py_mul (PyFloat (Finite (567382630219905 / 1125899906842624))) (PyInt 2)
      = Inr (PyFloat (Finite (567382630219905 / 562949953421312)))"
    by (simp add: float_op_def to_float_def t q2)
  have b: "to_double 9007199254740992 = Finite 9007199254740992"
    using to_double_int [of 9007199254740992] by simp
  have s: "to_double (9007199254740992 + 567382630219905 / 562949953421312) = Finite 9007199254740994"
    unfolding to_double_def round_double_s by simp
  have tf: "to_float (PyInt 9007199254740992) = Inr (Finite 9007199254740992)"
    using to_float_int [of 9007199254740992] by simp
  have fa: "fadd (Finite 9007199254740992) (Finite (567382630219905 / 562949953421312))
      = Finite 9007199254740994"
    by (simp only: fadd.simps s)
  have 3: "py_add (PyInt 9007199254740992) (PyFloat (Finite (567382630219905 / 562949953421312)))
      = Inr (PyFloat (Finite 9007199254740994))"
    by (simp only: py_add.simps float_op_def tf to_float_float sum.case fa)
  have d2: "(9007199254740994::int) - 9007199254740992 = 2" by simp
  have f: "map_value_py (PyInt 64) (PyInt 0) (PyInt 127) (PyInt 9007199254740992) (PyInt 9007199254740994)
     = Inr (PyFloat (Finite 9007199254740994))"
    by (simp only: map_value_py_def py_sub.simps(1) diff_zero d2 sum.case 1 2 3)
  have 4: "py_sub (PyFloat (Finite 9007199254740994)) (PyInt 9007199254740992) = Inr (PyFloat (Finite 2))"
    by (simp add: float_op_def to_float_def fsub_def b t)
  have 5: "py_truediv (PyFloat (Finite 2)) (PyInt 2) = Inr (PyFloat (Finite 1))"
    by (simp add: to_float_def t to_double_1)
  have m: "to_double 127 = Finite 127" using to_double_int [of 127] by simp
  have 6: "py_mul (PyFloat (Finite 1)) (PyInt 127) = Inr (PyFloat (Finite 127))"
    by (simp add: float_op_def to_float_def m)
  have 7: "py_add (PyInt 0) (PyFloat (Finite 127)) = Inr (PyFloat (Finite 127))"
    by (simp add: float_op_def to_float_def to_double_0 m)
  have g: "map_value_py (PyFloat (Finite 9007199254740994)) (PyInt 9007199254740992) (PyInt 9007199254740994)
        (PyInt 0) (PyInt 127) = Inr (PyFloat (Finite 127))"
    by (simp only: map_value_py_def 4 py_sub.simps(1) diff_zero d2 sum.case 5 6 7)
  from f g show ?thesis by simp
qed

section \<open>The note handler\<close>







text \<open>
  C6. For a servo list holding one servo with note 60, pin 9, home 10, max 100 and
  \<open>reverse_servo_direction\<close> false, with the MIDI range 0 to 127, the note handler
  called with \<open>(channel, 60, 0)\<close> sends exactly the write \<open>(9, 10)\<close>, and called with
  \<open>(channel, 60, 127)\<close> exactly \<open>(9, 100)\<close>.
\<close>

theorem note_handler_boundary:
  assumes "servo g = [c]" and "board g = Some sent" and "midi_min g = 0" and "midi_max g = 127"
    and "note_num c = 60" and "pwm_pin c = 9" and "pos_home (pos c) = 10"
    and "pos_max (pos c) = 100" and "\<not> reverse_servo_direction c"
  shows "note_handler (chan, 60, 0) g = (None, g\<lparr>board := Some (sent @ [analog_write 9 10])\<rparr>)
       \<and> note_handler (chan, 60, 127) g = (None, g\<lparr>board := Some (sent @ [analog_write 9 100])\<rparr>)"
  using assms
  by (simp add: note_handler_def note_servo_def reverse_servo_def map_value_def py_int_def)

theorem note_handler_boundary_witness:
  "note_handler (0, 60, 0) (example_globals [example_servo 9])
     = (None, (example_globals [example_servo 9])\<lparr>board := Some [analog_write 9 10]\<rparr>)
   \<and> note_handler (0, 60, 127) (example_globals [example_servo 9])
     = (None, (example_globals [example_servo 9])\<lparr>board := Some [analog_write 9 100]\<rparr>)"
proof -
  let ?g = "example_globals [example_servo 9]"
  have "servo ?g = [example_servo 9]" "board ?g = Some []" "midi_min ?g = 0" "midi_max ?g = 127"
    "note_num (example_servo 9) = 60" "pwm_pin (example_servo 9) = 9"
    "pos_home (pos (example_servo 9)) = 10" "pos_max (pos (example_servo 9)) = 100"
    "\<not> reverse_servo_direction (example_servo 9)"
    by (simp_all add: example_globals_def example_servo_def)
  from note_handler_boundary [OF this, of 0] show ?thesis by simp
qed




section \<open>The address selector: three-digit final octets\<close>

lemma lt10: "(d::nat) < 10 \<Longrightarrow> d = 0 \<or> d = 1 \<or> d = 2 \<or> d = 3 \<or> d = 4 \<or> d = 5 \<or> d = 6 \<or> d = 7 \<or> d = 8 \<or> d = 9"
  by arith

lemma digit_char_props:
  assumes "(d::nat) < 10"
  shows "is_digit (digit_char d)" and "\<not> is_space (digit_char d)"
    and "digit_val (digit_char d) = d"
    and "digit_char d \<noteq> CHR ''-''" and "digit_char d \<noteq> CHR ''+''"
  using lt10 [OF assms] by (auto simp: digit_char_def is_digit_def is_space_def digit_val_def)

lemma str_nat_three:
  assumes "100 \<le> n" "n \<le> 999"
  shows "str_nat n = [digit_char (n div 100), digit_char (n div 10 mod 10), digit_char (n mod 10)]"
proof -
  have a: "\<not> n < 10" "\<not> n div 10 < 10" "n div 10 div 10 < 10" using assms by auto
  have b: "n div 10 div 10 = n div 100" by (simp add: div_mult2_eq)
  have "str_nat (n div 10 div 10) = [digit_char (n div 10 div 10)]"
    using a(3) by (subst str_nat.simps) simp
  moreover have "str_nat (n div 10) = str_nat (n div 10 div 10) @ [digit_char (n div 10 mod 10)]"
    using a(2) by (subst str_nat.simps) simp
  moreover have "str_nat n = str_nat (n div 10) @ [digit_char (n mod 10)]"
    using a(1) by (subst str_nat.simps) simp
  ultimately show ?thesis using b by simp
qed

lemma py_int_str_three:
  assumes "a < 10" "b < 10" "c < 10"
  shows "py_int_str [digit_char a, digit_char b, digit_char c] = Inr (int (100 * a + 10 * b + c))"
  using digit_char_props [OF assms(1)] digit_char_props [OF assms(2)] digit_char_props [OF assms(3)]
  by (simp add: py_int_str_def dec_val_def)

lemma decimal_sum: "(w::nat) = 10 * x + y \<Longrightarrow> n = 10 * w + z \<Longrightarrow> 100 * x + 10 * y + z = n"
  by simp

lemma py_int_str_str_nat:
  assumes "100 \<le> n" "n \<le> 999"
  shows "py_int_str (str_nat n) = Inr (int n)"
proof -
  have lt: "n div 100 < 10" "n div 10 mod 10 < 10" "n mod 10 < 10"
    using assms by (simp_all add: less_mult_imp_div_less)
  have b: "n div 10 div 10 = n div 100" by (simp add: div_mult2_eq)
  have e1: "n div 10 = 10 * (n div 100) + n div 10 mod 10"
    using mult_div_mod_eq [of 10 "n div 10"] b by simp
  have e2: "n = 10 * (n div 10) + n mod 10" by simp
  have "100 * (n div 100) + 10 * (n div 10 mod 10) + n mod 10 = n"
    by (rule decimal_sum [OF e1 e2])
  then show ?thesis
    using py_int_str_three [OF lt] str_nat_three [OF assms] by simp
qed

lemma last_three:
  assumes "100 \<le> n" "n \<le> 999"
  shows "drop (length (p @ str_nat n) - 3) (p @ str_nat n) = str_nat n"
  using str_nat_three [OF assms] by simp

lemma str_int_nat: "str_int (int n) = str_nat n"
  by (simp add: str_int_def)

text \<open>
  C5, as the code has it. \<^verbatim>\<open>getIPAddress2\<close> reads the last three characters of the
  address, so it finds the final octet only when that octet has three digits (the WLAN
  ports are reserved from 100 on, line 230). For every address string whose last three
  characters are the decimal digits of \<open>n\<close>, \<open>100 \<le> n \<le> 999\<close>, the paired address is
  \<^verbatim>\<open>192.168.1.\<close> followed by \<open>n + 1\<close> when \<open>n\<close> is even and by \<open>n - 1\<close> when it is
  odd, and the classification names the address with the even final octet WLAN and the
  other LAN. So \<^verbatim>\<open>192.168.1.100\<close> and \<^verbatim>\<open>192.168.1.101\<close> both yield
  WLAN = \<^verbatim>\<open>192.168.1.100\<close>, LAN = \<^verbatim>\<open>192.168.1.101\<close>.
\<close>

theorem getIPAddress2_three_digit_octet:
  assumes "100 \<le> n" and "n \<le> 999"
  shows "getIPAddress2 (p @ str_nat n)
           = Inr (''192.168.1.'' @ str_nat (if n mod 2 = 0 then n + 1 else n - 1))
       \<and> main_addresses (p @ str_nat n)
           = Inr (if n mod 2 = 0 then (p @ str_nat n, ''192.168.1.'' @ str_nat (n + 1))
                  else (''192.168.1.'' @ str_nat (n - 1), p @ str_nat n))"
proof -
  have parse: "py_int_str (drop (length (p @ str_nat n) - 3) (p @ str_nat n)) = Inr (int n)"
    using last_three [OF assms] py_int_str_str_nat [OF assms] by simp
  have ev: "(int n mod 2 = 0) = (n mod 2 = 0)" by presburger
  have up: "str_int (int n + 1) = str_nat (n + 1)"
    using str_int_nat [of "n + 1"] by (simp add: add.commute)
  have down: "str_int (int n - 1) = str_nat (n - 1)"
    using str_int_nat [of "n - 1"] assms(1) by (simp add: of_nat_diff)
  have g: "getIPAddress2 (p @ str_nat n)
           = Inr (''192.168.1.'' @ str_nat (if n mod 2 = 0 then n + 1 else n - 1))"
    unfolding getIPAddress2_def parse using ev up down by simp
  have m: "main_addresses (p @ str_nat n)
           = Inr (if n mod 2 = 0 then (p @ str_nat n, ''192.168.1.'' @ str_nat (n + 1))
                  else (''192.168.1.'' @ str_nat (n - 1), p @ str_nat n))"
    unfolding main_addresses_def g parse using ev by simp
  from g m show ?thesis by simp
qed

lemma str_nat_100: "str_nat 100 = ''100''" "str_nat 101 = ''101''"
  by (simp_all add: str_nat.simps digit_char_def)

theorem getIPAddress2_three_digit_octet_witness:
  "getIPAddress2 ''192.168.1.100'' = Inr ''192.168.1.101''
   \<and> getIPAddress2 ''192.168.1.101'' = Inr ''192.168.1.100''
   \<and> main_addresses ''192.168.1.100'' = Inr (''192.168.1.100'', ''192.168.1.101'')
   \<and> main_addresses ''192.168.1.101'' = Inr (''192.168.1.100'', ''192.168.1.101'')"
proof -
  have a: "(100::nat) \<le> 100" "(100::nat) \<le> 999" "(100::nat) \<le> 101" "(101::nat) \<le> 999"
    by simp_all
  show ?thesis
    using getIPAddress2_three_digit_octet [OF a(1,2), of "''192.168.1.''"]
      getIPAddress2_three_digit_octet [OF a(3,4), of "''192.168.1.''"]
    by (simp add: str_nat_100)
qed

text \<open>
  A final octet of two digits: the last three characters are \<^verbatim>\<open>.50\<close>, on which
  \<^verbatim>\<open>int\<close> raises \<^verbatim>\<open>ValueError\<close>; no paired address \<^verbatim>\<open>192.168.1.51\<close> is derived.
\<close>

theorem getIPAddress2_short_octet_counterexample:
  "getIPAddress2 ''192.168.1.50'' = Inl ValueError
   \<and> getIPAddress2 ''192.168.1.50'' \<noteq> Inr ''192.168.1.51''
   \<and> main_addresses ''192.168.1.50'' = Inl ValueError"
  by (simp add: main_addresses_def getIPAddress2_def py_int_str_def is_space_def is_digit_def)

section \<open>The controller handler: one servo\<close>






section \<open>The controller handler: repeating a message\<close>

lemma cc_servo_idem:
  assumes "cc_servo n v mn mx c s = (e, v', c', s')"
  shows "\<exists>s''. cc_servo n v mn mx c' t = (e, v', c', s'')"
proof (cases "n = cc_home (cc c)")
  case home: True
  show ?thesis
  proof (cases "reverse_input (reverse_home_direction c) v mn mx")
    case (Inl x)
    with home assms have "e = Some x" "v' = v" "c' = c" by (simp_all add: cc_servo_def)
    with home Inl show ?thesis by (simp add: cc_servo_def)
  next
    case rin: (Inr v1)
    show ?thesis
    proof (cases "map_value v1 mn mx (abs_min (pos c)) (abs_max (pos c))")
      case (Inl x)
      with home rin assms have "e = Some x" "v' = v1" "c' = c" by (simp_all add: cc_servo_def)
      with home rin Inl show ?thesis by (simp add: cc_servo_def)
    next
      case mv: (Inr p)
      let ?c1 = "c\<lparr>pos := (pos c)\<lparr>pos_home := real_of_int (py_int p)\<rparr>\<rparr>"
      have same: "cc ?c1 = cc c" "reverse_home_direction ?c1 = reverse_home_direction c"
        "abs_min (pos ?c1) = abs_min (pos c)" "abs_max (pos ?c1) = abs_max (pos c)"
        "?c1\<lparr>pos := (pos ?c1)\<lparr>pos_home := real_of_int (py_int p)\<rparr>\<rparr> = ?c1"
        by simp_all
      have first: "cc_servo n v mn mx c s =
          (case reverse_servo ?c1 p of
             Inl x \<Rightarrow> (Some x, v1, ?c1, s)
           | Inr q \<Rightarrow> (None, v1, ?c1, s @ [analog_write (pwm_pin ?c1) (py_int q)]))"
        using home rin mv by (simp add: cc_servo_def Let_def)
      have second: "cc_servo n v mn mx ?c1 t =
          (case reverse_servo ?c1 p of
             Inl x \<Rightarrow> (Some x, v1, ?c1, t)
           | Inr q \<Rightarrow> (None, v1, ?c1, t @ [analog_write (pwm_pin ?c1) (py_int q)]))"
        using home rin mv same by (simp add: cc_servo_def Let_def)
      show ?thesis
      proof (cases "reverse_servo ?c1 p")
        case (Inl x)
        with first assms have "e = Some x" "v' = v1" "c' = ?c1" by simp_all
        with second Inl show ?thesis by simp
      next
        case (Inr q)
        with first assms have "e = None" "v' = v1" "c' = ?c1" by simp_all
        with second Inr show ?thesis by simp
      qed
    qed
  qed
next
  case nohome: False
  show ?thesis
  proof (cases "n = cc_max (cc c)")
    case cmax: True
    show ?thesis
    proof (cases "reverse_input (reverse_max_direction c) v mn mx")
      case (Inl x)
      with nohome cmax assms have "e = Some x" "v' = v" "c' = c" by (simp_all add: cc_servo_def)
      with nohome cmax Inl show ?thesis by (simp add: cc_servo_def)
    next
      case rin: (Inr v1)
      show ?thesis
      proof (cases "map_value v1 mn mx (pos_home (pos c)) (abs_max (pos c))")
        case (Inl x)
        with nohome cmax rin assms have "e = Some x" "v' = v1" "c' = c" by (simp_all add: cc_servo_def)
        with nohome cmax rin Inl show ?thesis by (simp add: cc_servo_def)
      next
        case mv: (Inr p)
        let ?c1 = "c\<lparr>pos := (pos c)\<lparr>pos_max := real_of_int (py_int p)\<rparr>\<rparr>"
        have same: "cc ?c1 = cc c" "reverse_max_direction ?c1 = reverse_max_direction c"
          "pos_home (pos ?c1) = pos_home (pos c)" "abs_max (pos ?c1) = abs_max (pos c)"
          "?c1\<lparr>pos := (pos ?c1)\<lparr>pos_max := real_of_int (py_int p)\<rparr>\<rparr> = ?c1"
          by simp_all
        have first: "cc_servo n v mn mx c s =
            (case reverse_servo ?c1 p of
               Inl x \<Rightarrow> (Some x, v1, ?c1, s)
             | Inr q \<Rightarrow> (None, v1, ?c1, s @ [analog_write (pwm_pin ?c1) (py_int q)]))"
          using nohome cmax rin mv by (simp add: cc_servo_def Let_def)
        have second: "cc_servo n v mn mx ?c1 t =
            (case reverse_servo ?c1 p of
               Inl x \<Rightarrow> (Some x, v1, ?c1, t)
             | Inr q \<Rightarrow> (None, v1, ?c1, t @ [analog_write (pwm_pin ?c1) (py_int q)]))"
          using nohome cmax rin mv same by (simp add: cc_servo_def Let_def)
        show ?thesis
        proof (cases "reverse_servo ?c1 p")
          case (Inl x)
          with first assms have "e = Some x" "v' = v1" "c' = ?c1" by simp_all
          with second Inl show ?thesis by simp
        next
          case (Inr q)
          with first assms have "e = None" "v' = v1" "c' = ?c1" by simp_all
          with second Inr show ?thesis by simp
        qed
      qed
    qed
  next
    case False
    with nohome assms have "e = None" "v' = v" "c' = c" by (simp_all add: cc_servo_def)
    with nohome False show ?thesis by (simp add: cc_servo_def)
  qed
qed

lemma cc_loop_idem:
  "cc_loop n v mn mx cs s = (e, v', cs', s') \<Longrightarrow> \<exists>s''. cc_loop n v mn mx cs' t = (e, v', cs', s'')"
proof (induction cs arbitrary: v s t e v' cs' s')
  case Nil
  then show ?case by simp
next
  case (Cons c cs)
  obtain e1 v1 c1 s1 where b: "cc_servo n v mn mx c s = (e1, v1, c1, s1)"
    by (cases "cc_servo n v mn mx c s") auto
  from cc_servo_idem [OF b] obtain t1 where b': "cc_servo n v mn mx c1 t = (e1, v1, c1, t1)" ..
  show ?case
  proof (cases e1)
    case (Some x)
    with Cons.prems b have "e = Some x" "v' = v1" "cs' = c1 # cs" by simp_all
    with Some b' show ?thesis by simp
  next
    case None
    obtain e2 v2 cs2 s2 where l: "cc_loop n v1 mn mx cs s1 = (e2, v2, cs2, s2)"
      by (cases "cc_loop n v1 mn mx cs s1") auto
    from Cons.IH [OF l] obtain t2 where l': "cc_loop n v1 mn mx cs2 t1 = (e2, v2, cs2, t2)" ..
    from Cons.prems b None l have "e = e2" "v' = v2" "cs' = c1 # cs2" by simp_all
    with None b' l' show ?thesis by simp
  qed
qed

lemma cc_handler_result:
  assumes "board g = Some sent"
    and "cc_loop n v (midi_min g) (midi_max g) (servo g) sent = (e, v', cs', s')"
  shows "\<exists>b. snd (cc_handler (chan, n, v) g) = g\<lparr>board := Some b, servo := cs'\<rparr>"
  using assms by (cases e; cases "cc_stepper n v' (g\<lparr>servo := cs'\<rparr>) s'") (auto simp: cc_handler_def)

text \<open>
  C9. Applying the same controller message twice in succession leaves every servo's
  \<open>pos_home\<close> and \<open>pos_max\<close> (the whole servo list) as the first application left it:
  the second application recomputes the same persisted values, also in the \<open>cc_max\<close>
  branch, whose range starts at the servo's \<open>pos_home\<close>, which a message that reaches
  that branch does not change. This holds whether or not the handler raises.
\<close>

theorem cc_handler_idempotent:
  "servo (snd (cc_handler d (snd (cc_handler d g)))) = servo (snd (cc_handler d g))"
proof -
  obtain chan n v where d: "d = (chan, n, v)" by (cases d) auto
  show ?thesis
  proof (cases "board g")
    case None
    then show ?thesis by (simp add: d cc_handler_def)
  next
    case (Some sent)
    obtain e v' cs' s' where l: "cc_loop n v (midi_min g) (midi_max g) (servo g) sent = (e, v', cs', s')"
      by (cases "cc_loop n v (midi_min g) (midi_max g) (servo g) sent") auto
    from cc_handler_result [OF Some l] obtain b
      where g1: "snd (cc_handler (chan, n, v) g) = g\<lparr>board := Some b, servo := cs'\<rparr>" ..
    let ?g1 = "g\<lparr>board := Some b, servo := cs'\<rparr>"
    from cc_loop_idem [OF l] obtain t where "cc_loop n v (midi_min g) (midi_max g) cs' b = (e, v', cs', t)" ..
    then have l1: "cc_loop n v (midi_min ?g1) (midi_max ?g1) (servo ?g1) b = (e, v', cs', t)" by simp
    have "board ?g1 = Some b" by simp
    from cc_handler_result [OF this l1] obtain b'
      where "snd (cc_handler (chan, n, v) ?g1) = ?g1\<lparr>board := Some b', servo := cs'\<rparr>" ..
    with g1 show ?thesis by (simp add: d)
  qed
qed

theorem cc_handler_idempotent_witness:
  "servo (snd (cc_handler (0, 21, 64) (snd (cc_handler (0, 21, 64) (example_globals [example_servo 9])))))
     = servo (snd (cc_handler (0, 21, 64) (example_globals [example_servo 9])))"
  by (rule cc_handler_idempotent)

section \<open>The controller handler: the value passed from servo to servo\<close>










section \<open>The controller handler: the home calibration\<close>






end
